theory Spec2Isabelle
  imports Complex_Main "HOL-Library.Word"
begin

unbundle bit_operations_syntax

section \<open>Wire protocol (SpiwriteProtocol.h, SpiwriteProtocol.cpp)\<close>

text \<open>
  Bytes are \<open>uint8_t\<close>, header fields are \<open>uint32_t\<close>. The header struct is
  packed, so a header is 16 bytes and a field lies in memory in the byte order of the
  host. The host's byte order and the width of \<open>size_t\<close> are not fixed by the
  sources; both are parameters of the model (\<open>endian\<close>, and the number of bits
  \<open>wbits\<close> of \<open>size_t\<close>).
\<close>

type_synonym byte = "8 word"
type_synonym uint32_t = "32 word"

definition MSG_STRAT_CODE :: uint32_t where
  "MSG_STRAT_CODE = 0x1077E110"

definition MSG_ACK :: uint32_t where
  "MSG_ACK = 0x00000001"

definition MSG_LINES :: uint32_t where
  "MSG_LINES = 0x00000002"

datatype endian = LittleEndian | BigEndian

definition be_bytes :: "uint32_t \<Rightarrow> byte list" where
  "be_bytes w = [ucast (drop_bit 24 w), ucast (drop_bit 16 w), ucast (drop_bit 8 w), ucast w]"

fun be_word :: "byte list \<Rightarrow> uint32_t" where
  "be_word [a, b, c, d] =
     push_bit 24 (ucast a) OR push_bit 16 (ucast b) OR push_bit 8 (ucast c) OR ucast d"
| "be_word bs = 0"

text \<open>A \<open>uint32_t\<close> object as it lies in the memory of the host, and back.\<close>

definition host_store :: "endian \<Rightarrow> uint32_t \<Rightarrow> byte list" where
  "host_store e w = (case e of BigEndian \<Rightarrow> be_bytes w | LittleEndian \<Rightarrow> rev (be_bytes w))"

definition host_load :: "endian \<Rightarrow> byte list \<Rightarrow> uint32_t" where
  "host_load e bs = (case e of BigEndian \<Rightarrow> be_word bs | LittleEndian \<Rightarrow> be_word (rev bs))"

definition bswap32 :: "uint32_t \<Rightarrow> uint32_t" where
  "bswap32 w = be_word (rev (be_bytes w))"

definition ntohl :: "endian \<Rightarrow> uint32_t \<Rightarrow> uint32_t" where
  "ntohl e w = (case e of BigEndian \<Rightarrow> w | LittleEndian \<Rightarrow> bswap32 w)"

definition htonl :: "endian \<Rightarrow> uint32_t \<Rightarrow> uint32_t" where
  "htonl e w = (case e of BigEndian \<Rightarrow> w | LittleEndian \<Rightarrow> bswap32 w)"

record Header =
  start :: uint32_t
  sequence :: uint32_t
  message_type :: uint32_t
  message_length :: uint32_t

text \<open>\<open>sizeof(Header)\<close> of the packed struct.\<close>

definition sizeof_Header :: nat where
  "sizeof_Header = 16"

text \<open>
  \<open>Header::FromNetwork\<close>: the raw bytes are read through a \<open>Header\<close> pointer
  (each field in host order) and every field goes through \<open>ntohl\<close>.
\<close>

definition FromNetwork :: "endian \<Rightarrow> byte list \<Rightarrow> Header" where
  "FromNetwork e raw =
     \<lparr> start = ntohl e (host_load e (take 4 raw)),
       sequence = ntohl e (host_load e (take 4 (drop 4 raw))),
       message_type = ntohl e (host_load e (take 4 (drop 8 raw))),
       message_length = ntohl e (host_load e (take 4 (drop 12 raw))) \<rparr>"

definition ToNetwork :: "endian \<Rightarrow> Header \<Rightarrow> Header" where
  "ToNetwork e h =
     \<lparr> start = htonl e (start h),
       sequence = htonl e (sequence h),
       message_type = htonl e (message_type h),
       message_length = htonl e (message_length h) \<rparr>"

text \<open>A \<open>Frame\<close>: the header and the bytes of its \<open>MessageRaw\<close>.\<close>

record Frame =
  head :: Header
  message :: "byte list"

definition Length :: "Frame \<Rightarrow> int" where
  "Length f = int (sizeof_Header + length (message f))"

text \<open>
  \<open>Frame::DeepCopy\<close>: \<open>memcpy\<close> of the header object as it lies in memory,
  followed by the payload bytes. No byte-order conversion takes place here.
\<close>

definition header_bytes :: "endian \<Rightarrow> Header \<Rightarrow> byte list" where
  "header_bytes e h =
     host_store e (start h) @ host_store e (sequence h) @
     host_store e (message_type h) @ host_store e (message_length h)"

definition DeepCopy :: "endian \<Rightarrow> Frame \<Rightarrow> byte list" where
  "DeepCopy e f = header_bytes e (head f) @ message f"

text \<open>
  \<open>DecodeFrame\<close> throws \<open>std::logic_error\<close> twice; both are values of
  \<open>decode_error\<close>. The buffer is the list of bytes that really lie at \<open>frame\<close>;
  \<open>len\<close> is the \<open>int\<close> the caller passes. A read beyond the bytes that are there is
  undefined behaviour in the source and \<open>BufferOverrun\<close> in the model. The two
  comparisons are made in \<open>size_t\<close>: \<open>len\<close> is converted (\<open>to_size_t\<close>) and the
  sum \<open>sizeof(head) + head.message_length\<close> wraps at \<open>2 ^ wbits\<close>.
\<close>

datatype decode_error =
    NotReady
  | Malformed int nat
  | BufferOverrun

definition to_size_t :: "nat \<Rightarrow> int \<Rightarrow> nat" where
  "to_size_t wbits i = nat (i mod 2 ^ wbits)"

definition DecodeFrame :: "endian \<Rightarrow> nat \<Rightarrow> byte list \<Rightarrow> int \<Rightarrow> decode_error + Frame" where
  "DecodeFrame e wbits frame len =
     (if to_size_t wbits len < sizeof_Header then Inl NotReady
      else if length frame < sizeof_Header then Inl BufferOverrun
      else
        let h = FromNetwork e frame;
            msg = drop sizeof_Header frame;
            need = (sizeof_Header + unat (message_length h)) mod 2 ^ wbits
        in if need > to_size_t wbits len then Inl (Malformed len need)
           else if length msg < unat (message_length h) then Inl BufferOverrun
           else Inr \<lparr> head = h, message = take (unat (message_length h)) msg \<rparr>)"

section \<open>Frame handler (SpiwriteFrameHandler.h)\<close>

text \<open>
  What \<open>FrameHandler\<close> does to the outside is a sequence of events: a call of the
  pre-message hook, a buffer handed to the send callback \<open>on_send_\<close>, a call of the
  message handler \<open>OnMessage\<close>. The hooks are the ones of the base class.
\<close>

datatype event =
    EvPreMessage Frame
  | EvSend "byte list"
  | EvOnMessage Header "byte list"

definition Send :: "endian \<Rightarrow> Frame \<Rightarrow> event list" where
  "Send e f = [EvSend (DeepCopy e f)]"

definition Ack :: "endian \<Rightarrow> uint32_t \<Rightarrow> uint32_t \<Rightarrow> event list" where
  "Ack e sq msg_type =
     Send e \<lparr> head = ToNetwork e \<lparr> start = MSG_STRAT_CODE, sequence = sq,
                                   message_type = msg_type, message_length = 0 \<rparr>,
              message = [] \<rparr>"

definition OnPreMessage :: "endian \<Rightarrow> Frame \<Rightarrow> event list" where
  "OnPreMessage e f =
     (if message_type (head f) = MSG_ACK then [] else Ack e (sequence (head f)) MSG_ACK)"

text \<open>The body of the loop of \<open>OnReceive\<close> after the frame is decoded.\<close>

definition handle_decoded :: "endian \<Rightarrow> Frame \<Rightarrow> event list" where
  "handle_decoded e decoded =
     (if start (head decoded) \<noteq> MSG_STRAT_CODE then []
      else EvPreMessage decoded # OnPreMessage e decoded @
           (if message_type (head decoded) = MSG_LINES
            then [EvOnMessage (head decoded) (message decoded)] else []))"

datatype receive_end = Completed | Threw decode_error

text \<open>
  \<open>OnReceive\<close>: the loop over \<open>processed\<close>. An exception of \<open>DecodeFrame\<close> is
  not caught here, so it ends the call; \<open>processed\<close> is then what it was.
\<close>

function OnReceive_loop ::
  "endian \<Rightarrow> nat \<Rightarrow> byte list \<Rightarrow> int \<Rightarrow> int \<Rightarrow> event list \<Rightarrow> event list \<times> int \<times> receive_end"
where
  "OnReceive_loop e wbits packet len processed evs =
     (if processed < len then
        (case DecodeFrame e wbits (drop (nat processed) packet) (len - processed) of
           Inl err \<Rightarrow> (evs, processed, Threw err)
         | Inr decoded \<Rightarrow>
             OnReceive_loop e wbits packet len (processed + Length decoded)
               (evs @ handle_decoded e decoded))
      else (evs, processed, Completed))"
  by pat_completeness auto
termination
  by (relation "measure (\<lambda>(e, wbits, packet, len, processed, evs). nat (len - processed))")
     (auto simp: Length_def sizeof_Header_def)

declare OnReceive_loop.simps [simp del]

definition OnReceive :: "endian \<Rightarrow> nat \<Rightarrow> byte list \<Rightarrow> int \<Rightarrow> event list \<times> int \<times> receive_end" where
  "OnReceive e wbits packet len = OnReceive_loop e wbits packet len 0 []"

section \<open>MemoryWriter (SpiwriteCommand.h, SpiwriteCommand.cpp)\<close>

text \<open>
  \<open>uintptr_t\<close> and \<open>size_t\<close> are words of the width \<open>'a\<close> of the machine. The
  answers of the operating system (\<open>sysconf\<close>, \<open>open\<close>, \<open>mmap\<close>) are a
  parameter. What a call does to memory is the list of its accesses, each with the
  physical address it reaches: \<open>/dev/mem\<close> is mapped at \<open>page_base\<close>, so the
  pointer \<open>base + off\<close> reaches the physical address \<open>page_base + off\<close>.
  Diagnostics on \<open>std::cerr\<close>, the mutex and the memory barriers are left out.
\<close>

datatype 'w mem_access =
    MemStore 'w uint32_t
  | MemLoad 'w

record 'w os_env =
  page_size :: 'w
  open_result :: int
  mmap_result :: 'w

definition MAP_FAILED :: "'a::len word" where
  "MAP_FAILED = - 1"

record 'w MemoryWriter =
  mem_fd :: int
  mapped_base :: 'w
  mapped_address :: 'w
  mapped_size :: 'w

text \<open>The members as their default initialisers leave them (\<open>nullptr\<close> is 0).\<close>

definition MemoryWriter_new :: "'a::len word MemoryWriter" where
  "MemoryWriter_new = \<lparr> mem_fd = - 1, mapped_base = 0, mapped_address = 0, mapped_size = 0 \<rparr>"

definition writeMemoryDirect ::
  "'a::len word os_env \<Rightarrow> 'a word \<Rightarrow> uint32_t \<Rightarrow> bool \<times> 'a word mem_access list" where
  "writeMemoryDirect os target_address val =
     (let page_base = target_address AND NOT (page_size os - 1);
          page_offset = target_address - page_base
      in if page_offset + 4 > page_size os then (False, [])
         else if open_result os = - 1 then (False, [])
         else if mmap_result os = MAP_FAILED then (False, [])
         else (True, [MemStore (page_base + page_offset) val]))"

definition initialize ::
  "'a::len word os_env \<Rightarrow> 'a word MemoryWriter \<Rightarrow> 'a word \<Rightarrow> 'a word \<Rightarrow> bool \<times> 'a word MemoryWriter" where
  "initialize os mw base_addr sz =
     (let page_base = base_addr AND NOT (page_size os - 1);
          mw1 = mw\<lparr> mapped_size := ((sz + page_size os - 1) div page_size os) * page_size os,
                    mem_fd := open_result os \<rparr>
      in if mem_fd mw1 = - 1 then (False, mw1)
         else
           let mw2 = mw1\<lparr> mapped_base := mmap_result os \<rparr>
           in if mapped_base mw2 = MAP_FAILED then (False, mw2\<lparr> mem_fd := - 1 \<rparr>)
              else (True, mw2\<lparr> mapped_address := page_base \<rparr>))"

definition writeMemory ::
  "'a::len word os_env \<Rightarrow> 'a word MemoryWriter \<Rightarrow> 'a word \<Rightarrow> uint32_t \<Rightarrow> bool \<times> 'a word mem_access list" where
  "writeMemory os mw target_address val =
     (if mem_fd mw = - 1 \<or> mapped_base mw = 0 then writeMemoryDirect os target_address val
      else if target_address mod 4 \<noteq> 0 then (False, [])
      else if target_address < mapped_address mw \<or>
              target_address + 4 > mapped_address mw + mapped_size mw then (False, [])
      else (True, [MemStore (mapped_address mw + (target_address - mapped_address mw)) val]))"

text \<open>
  \<open>readMemory\<close> has no test of \<open>mem_fd\<close> or \<open>mapped_base\<close>: after its two checks it
  loads through \<open>mapped_base + (target_address - mapped_address)\<close>. Where
  \<open>mapped_base\<close> is no mapping (the null pointer of a writer that was never initialised
  or whose \<open>open\<close> failed, or \<open>MAP_FAILED\<close> left by a failed \<open>mmap\<close>) the load
  goes through an invalid pointer: \<open>ReadFault\<close>.
\<close>

datatype 'w read_end =
    ReadFailed
  | ReadFault
  | ReadDone "'w mem_access"

definition readMemory ::
  "'a::len word MemoryWriter \<Rightarrow> 'a word \<Rightarrow> 'a word read_end" where
  "readMemory mw target_address =
     (if target_address mod 4 \<noteq> 0 then ReadFailed
      else if target_address < mapped_address mw \<or>
              target_address + 4 > mapped_address mw + mapped_size mw then ReadFailed
      else if mapped_base mw = 0 \<or> mapped_base mw = MAP_FAILED then ReadFault
      else ReadDone (MemLoad (mapped_address mw + (target_address - mapped_address mw))))"

section \<open>Command execution engine (SpiwriteCommand.cpp)\<close>

text \<open>
  The engine reaches the hardware only through \<open>wr.writeMemory\<close> and
  \<open>wr.readMemory\<close>. The model records these calls in the order they are made
  (\<open>hw\<close>); every register address of the engine is below \<open>2 ^ 31\<close>, so addresses
  are natural numbers. \<open>byte_queues\<close> is the global \<open>std::map\<close> from bus id to
  byte queue: it lives across calls, and a bus that has no entry yet has the empty
  queue that \<open>operator[]\<close> creates. Output on \<open>stdout\<close>, the sleeps and the
  counters that only feed \<open>printf\<close> are left out.

  \<open>closes\<close> is no variable of the source: it notes, each time the close sequence of
  a bus begins, the bus and the content of its queue at that moment.
\<close>

datatype hw_op =
    HwWrite nat uint32_t
  | HwRead nat

record Result =
  message :: string
  responses :: "uint32_t list"

record engine =
  byte_queues :: "int \<Rightarrow> byte list"
  hw :: "hw_op list"
  closes :: "(int \<times> byte list) list"

text \<open>
  How a call ends: it returns a \<open>Result\<close>, or it reads outside a container
  (\<open>operator[]\<close> out of range), which is undefined behaviour in the source.
\<close>

datatype run_end =
    Returned Result
  | Undefined

definition register_addrs :: "byte list" where
  "register_addrs = [0x27, 0x3F, 0x47, 0x5F]"

definition base_address_of :: "byte \<Rightarrow> nat" where
  "base_address_of bus_id = 0x43c40000 + unat bus_id * 0x10000"

definition wr_writeMemory :: "nat \<Rightarrow> uint32_t \<Rightarrow> engine \<Rightarrow> engine" where
  "wr_writeMemory a v st = st\<lparr> hw := hw st @ [HwWrite a v] \<rparr>"

definition wr_readMemory :: "nat \<Rightarrow> engine \<Rightarrow> engine" where
  "wr_readMemory a st = st\<lparr> hw := hw st @ [HwRead a] \<rparr>"

definition push_back :: "int \<Rightarrow> byte \<Rightarrow> engine \<Rightarrow> engine" where
  "push_back k b st = st\<lparr> byte_queues := (byte_queues st)(k := byte_queues st k @ [b]) \<rparr>"

text \<open>The inner \<open>for\<close> loop: four times \<open>data <<= 8; data |= q.front()\<close>.\<close>

definition pack_front :: "byte list \<Rightarrow> uint32_t" where
  "pack_front bs = foldl (\<lambda>data b. push_bit 8 data OR ucast b) 0 bs"

text \<open>The loop \<open>while (q.size() >= 4)\<close> on the queue of bus \<open>k\<close>.\<close>

function drain_queue :: "nat \<Rightarrow> int \<Rightarrow> engine \<Rightarrow> engine" where
  "drain_queue base_address k st =
     (if 4 \<le> length (byte_queues st k) then
        drain_queue base_address k
          (wr_writeMemory (base_address + 0x0010) (pack_front (take 4 (byte_queues st k)))
             (st\<lparr> byte_queues := (byte_queues st)(k := drop 4 (byte_queues st k)) \<rparr>))
      else st)"
  by pat_completeness auto
termination
  by (relation "measure (\<lambda>(base_address, k, st). length (byte_queues st k))")
     (auto simp: wr_writeMemory_def)

declare drain_queue.simps [simp del]

text \<open>
  The first half of the loop body (one value): the value is read from the input, its
  device command is queued and the queue is drained.
\<close>

definition read_value :: "byte list \<Rightarrow> nat \<Rightarrow> 16 word" where
  "read_value binary_data offset =
     push_bit 8 (ucast (binary_data ! offset)) OR ucast (binary_data ! (offset + 1))"

definition consume_value :: "byte list \<Rightarrow> nat \<Rightarrow> byte \<Rightarrow> byte \<Rightarrow> nat \<Rightarrow> engine \<Rightarrow> engine" where
  "consume_value binary_data offset bus_id ucIcAddr reg_idx st =
     (let ucRegisterAddr = register_addrs ! reg_idx;
          val = read_value binary_data offset;
          base_address = base_address_of bus_id;
          k = int (unat bus_id);
          st1 = push_back k 0x28 st;
          st2 = push_back k ucIcAddr st1;
          st3 = push_back k ucRegisterAddr st2;
          st4 = push_back k (ucast (drop_bit 8 val AND 0xFF)) st3;
          st5 = push_back k (ucast (val AND 0xFF)) st4
      in drain_queue base_address k st5)"

text \<open>The close sequence of the current bus and the open sequence of the next one.\<close>

definition bus_close :: "byte \<Rightarrow> engine \<Rightarrow> engine" where
  "bus_close bus_id st =
     (let base_address = base_address_of bus_id;
          st0 = st\<lparr> closes := closes st @
                   [(int (unat bus_id), byte_queues st (int (unat bus_id)))] \<rparr>;
          st1 = wr_writeMemory (base_address + 0x0014) 0x280 st0;
          st2 = wr_readMemory base_address st1;
          st3 = wr_writeMemory base_address 0xffffffff st2
      in wr_readMemory (base_address + 0xC) st3)"

definition bus_open :: "byte \<Rightarrow> engine \<Rightarrow> engine" where
  "bus_open bus_id st = wr_writeMemory (base_address_of bus_id + 0x2C) 0x2 st"

text \<open>
  The second half of the loop body: the next register, chip and bus. The result is
  whether the loop is left by \<open>break\<close>, the new \<open>bus_id\<close>, \<open>ucIcAddr\<close> and
  \<open>reg_idx\<close>, and the state.
\<close>

definition advance :: "byte \<Rightarrow> byte \<Rightarrow> nat \<Rightarrow> engine \<Rightarrow> bool \<times> byte \<times> byte \<times> nat \<times> engine" where
  "advance bus_id ucIcAddr reg_idx st =
     (if reg_idx + 1 \<ge> 4 then
        (if ucIcAddr + 1 > 0x1F then
           (let st1 = bus_close bus_id st
            in if bus_id + 1 > 0x07 then (True, bus_id + 1, 0, 0, st1)
               else (False, bus_id + 1, 0, 0, bus_open (bus_id + 1) st1))
         else (False, bus_id, ucIcAddr + 1, 0, st))
      else (False, bus_id, ucIcAddr, reg_idx + 1, st))"

definition Result_001 :: Result where
  "Result_001 = \<lparr> message = ''001'', responses = [] \<rparr>"

text \<open>
  The loop \<open>while (offset + 1 <= binary_data.size())\<close>. The body reads
  \<open>binary_data[offset + 1]\<close>; when \<open>offset + 1\<close> is the size, that read is out of
  range.
\<close>

function parse_loop ::
  "byte list \<Rightarrow> nat \<Rightarrow> byte \<Rightarrow> byte \<Rightarrow> nat \<Rightarrow> engine \<Rightarrow> run_end \<times> engine" where
  "parse_loop binary_data offset bus_id ucIcAddr reg_idx st =
     (if offset + 1 \<le> length binary_data then
        (if length binary_data \<le> offset + 1 then (Undefined, st)
         else
           (case advance bus_id ucIcAddr reg_idx
                   (consume_value binary_data offset bus_id ucIcAddr reg_idx st) of
              (brk, bus_id', ucIcAddr', reg_idx', st') \<Rightarrow>
                if brk then (Returned Result_001, st')
                else parse_loop binary_data (offset + 2) bus_id' ucIcAddr' reg_idx' st'))
      else (Returned Result_001, st))"
  by pat_completeness auto
termination
  by (relation "measure (\<lambda>(binary_data, offset, bus_id, ucIcAddr, reg_idx, st).
                   length binary_data - offset)") auto

declare parse_loop.simps [simp del]

definition parse_binary_commands :: "byte list \<Rightarrow> engine \<Rightarrow> run_end \<times> engine" where
  "parse_binary_commands binary_data st = parse_loop binary_data 3 0 0 0 st"

subsection \<open>Text commands\<close>

text \<open>
  The \<open>done\<close> command waits until the send-status register reads 0. What the
  register answers is a parameter: \<open>rd i\<close> is the answer to the poll number \<open>i\<close>,
  \<open>None\<close> when \<open>wr.readMemory\<close> fails. The loop has no bound, so it is a partial
  function: \<open>None\<close> is the wait that never ends.
\<close>

partial_function (option) poll_send_status ::
  "(nat \<Rightarrow> uint32_t option) \<Rightarrow> nat \<Rightarrow> engine \<Rightarrow> engine option" where
  "poll_send_status rd i st =
     (case rd i of
        None \<Rightarrow> Some (wr_readMemory 0x43c00014 st)
      | Some fifo_send_check_value \<Rightarrow>
          if fifo_send_check_value = 0x0 then Some (wr_readMemory 0x43c00014 st)
          else poll_send_status rd (i + 1) (wr_readMemory 0x43c00014 st))"

definition read_remaining_sizes :: "engine \<Rightarrow> engine" where
  "read_remaining_sizes st =
     foldl (\<lambda>s a. wr_readMemory a s) st
       [0x43c4000c, 0x43c5000c, 0x43c6000c, 0x43c7000c,
        0x43c8000c, 0x43c9000c, 0x43ca000c, 0x43cb000c]"

text \<open>\<open>tokens[0]\<close> on an empty vector is out of range.\<close>

definition parse_text_commands ::
  "(nat \<Rightarrow> uint32_t option) \<Rightarrow> string list \<Rightarrow> engine \<Rightarrow> (run_end \<times> engine) option" where
  "parse_text_commands rd tokens st =
     (case tokens of
        [] \<Rightarrow> Some (Undefined, st)
      | cmd # _ \<Rightarrow>
          if cmd = ''start'' then
            Some (Returned \<lparr> message = ''stat init completed !!!'', responses = [] \<rparr>,
                  wr_writeMemory 0x43c4002c 0x2 st)
          else if cmd = ''done'' then
            (case poll_send_status rd 0
                    (wr_writeMemory 0x43c00014 0xff
                      (wr_writeMemory 0x43c0001c 0x1
                        (wr_writeMemory 0x43c00018 0x5 st))) of
               None \<Rightarrow> None
             | Some st1 \<Rightarrow>
                 Some (Returned \<lparr> message = ''done complete'', responses = [] \<rparr>,
                       read_remaining_sizes st1))
          else Some (Returned \<lparr> message = ''what?'', responses = [] \<rparr>, st))"

subsection \<open>Decompression\<close>

definition validate_zlib_header :: "byte list \<Rightarrow> bool" where
  "validate_zlib_header data =
     (if length data < 2 then False
      else
        let cmf = data ! 0; flg = data ! 1; cm = cmf AND 0x0F
        in if cm \<noteq> 8 then False
           else (unat cmf * 256 + unat flg) mod 65536 mod 31 = 0)"

text \<open>
  \<open>decompress_zlib_verbose\<close>: after the header check everything is done by zlib
  (\<open>inflateInit2\<close>, \<open>inflate\<close>, \<open>inflateEnd\<close>), which is not part of the sources.
  It is the parameter \<open>inflate\<close>: the decompressed bytes, or the text of the
  \<open>std::runtime_error\<close> that is thrown.
\<close>

definition decompress_zlib_verbose ::
  "(byte list \<Rightarrow> string + byte list) \<Rightarrow> byte list \<Rightarrow> string + byte list" where
  "decompress_zlib_verbose inflate compressed_data =
     (if \<not> validate_zlib_header compressed_data then Inl ''Invalid zlib header''
      else inflate compressed_data)"

subsection \<open>Execute\<close>

text \<open>
  \<open>raw_command[i]\<close> of a \<open>std::string\<close>: the character at \<open>i\<close>, the terminating
  zero at \<open>i = size()\<close>, and out of range beyond.
\<close>

definition string_at :: "string \<Rightarrow> nat \<Rightarrow> byte option" where
  "string_at s i =
     (if i < length s then Some (of_char (s ! i))
      else if i = length s then Some 0
      else None)"

definition is_delim :: "char \<Rightarrow> bool" where
  "is_delim c \<longleftrightarrow> c = CHR '' '' \<or> c = CHR ''&''"

text \<open>The inner loop that skips a run of delimiters.\<close>

function skip_delims :: "string \<Rightarrow> nat \<Rightarrow> nat" where
  "skip_delims raw_command pos =
     (if pos < length raw_command \<and> is_delim (raw_command ! pos)
      then skip_delims raw_command (pos + 1) else pos)"
  by pat_completeness auto
termination
  by (relation "measure (\<lambda>(raw_command, pos). length raw_command - pos)") auto

declare skip_delims.simps [simp del]

lemma skip_delims_ge: "pos \<le> skip_delims raw_command pos"
  by (induction raw_command pos rule: skip_delims.induct)
     (subst skip_delims.simps, auto)

lemma skip_delims_gt:
  "pos < length raw_command \<Longrightarrow> is_delim (raw_command ! pos) \<Longrightarrow>
   pos < skip_delims raw_command pos"
  using skip_delims_ge [of "pos + 1" raw_command]
  by (subst skip_delims.simps) simp

text \<open>The outer loop; the result is the final \<open>start\<close> (here \<open>start0\<close>) and the tokens found.\<close>

function tokenize_loop :: "string \<Rightarrow> nat \<Rightarrow> nat \<Rightarrow> string list \<Rightarrow> nat \<times> string list" where
  "tokenize_loop raw_command start0 pos tokens =
     (if pos < length raw_command then
        (if is_delim (raw_command ! pos) then
           tokenize_loop raw_command (skip_delims raw_command pos) (skip_delims raw_command pos)
             (if pos > start0
              then tokens @ [take (pos - start0) (drop start0 raw_command)] else tokens)
         else tokenize_loop raw_command start0 (pos + 1) tokens)
      else (start0, tokens))"
  by pat_completeness auto
termination
  by (relation "measure (\<lambda>(raw_command, start0, pos, tokens). length raw_command - pos)")
     (auto simp: skip_delims_gt diff_less_mono2)

declare tokenize_loop.simps [simp del]

definition tokenize :: "string \<Rightarrow> string list" where
  "tokenize raw_command =
     (case tokenize_loop raw_command 0 0 [] of
        (start0, tokens) \<Rightarrow>
          if start0 < length raw_command
          then tokens @ [drop start0 raw_command] else tokens)"

definition Execute ::
  "(byte list \<Rightarrow> string + byte list) \<Rightarrow> (nat \<Rightarrow> uint32_t option) \<Rightarrow> string \<Rightarrow> engine
     \<Rightarrow> (run_end \<times> engine) option" where
  "Execute inflate rd raw_command st =
     (if take 7 raw_command = ''BINARY:'' then
        (case (string_at raw_command 7, string_at raw_command 8) of
           (Some first_byte, Some second_byte) \<Rightarrow>
             let compressed = (first_byte = 0x78 \<and> second_byte AND 0x20 = 0);
                 binary_size = length raw_command - 7
             in if binary_size = 0 then
                  Some (Returned \<lparr> message = ''No binary data found'', responses = [] \<rparr>, st)
                else
                  let binary_data = map of_char (drop 7 raw_command)
                  in if compressed then
                       (if length binary_data < 2 then
                          Some (Returned \<lparr> message = ''Invalid zlib data: too short'',
                                           responses = [] \<rparr>, st)
                        else if (binary_data ! 0) AND 0x0F \<noteq> 8 then
                          Some (Returned \<lparr> message = ''Invalid zlib compression method'',
                                           responses = [] \<rparr>, st)
                        else if (unat (binary_data ! 0) * 256 + unat (binary_data ! 1)) mod 31 \<noteq> 0 then
                          Some (Returned \<lparr> message = ''Invalid zlib header checksum'',
                                           responses = [] \<rparr>, st)
                        else
                          (case decompress_zlib_verbose inflate binary_data of
                             Inl what \<Rightarrow>
                               Some (Returned \<lparr> message = ''Decompression error: '' @ what,
                                                responses = [] \<rparr>, st)
                           | Inr decompressed_data \<Rightarrow>
                               Some (parse_binary_commands decompressed_data st)))
                     else Some (parse_binary_commands binary_data st)
         | _ \<Rightarrow> Some (Undefined, st))
      else parse_text_commands rd (tokenize raw_command) st)"

subsection \<open>The reply to a command (SpitermRunner.cpp)\<close>

text \<open>
  \<open>SpitermRunner::Impl::OnMessage\<close> turns the \<open>Result\<close> of one \<open>Execute\<close> into
  reply text: one line per readback word, then the message line. The format of a
  readback line uses \<open>Controller::SpiReadback\<close>, which is not part of the sources; it is
  the parameter \<open>readback_line\<close>.
\<close>

definition CRLF :: string where
  "CRLF = [char_of (13 :: nat), char_of (10 :: nat)]"

definition reply_lines :: "(uint32_t \<Rightarrow> string) \<Rightarrow> Result \<Rightarrow> string" where
  "reply_lines readback_line r =
     concat (map readback_line (responses r)) @
     (if message r \<noteq> [] then message r @ CRLF else [])"

section \<open>Phase calculator (ConsoleRunner.cpp)\<close>

text \<open>
  \<open>phase\<close> computes in \<open>float\<close>, and \<open>normalize_degrees\<close> partly in \<open>double\<close>
  (IEEE 754 binary32 and binary64, every operation rounded to nearest, ties to even).
  A value of either type is a NaN, a finite number, or \<open>Beyond\<close>: an infinity or a
  value computed from one, which the model does not follow (every operation on
  \<open>Beyond\<close> is \<open>Beyond\<close>). The sign of a zero is not modelled; nothing in \<open>phase\<close>
  depends on it.
\<close>

datatype fp = NaN | Fin real | Beyond

text \<open>The integer nearest to \<open>x\<close>, the even one of two that are equally near.\<close>

definition round_even :: "real \<Rightarrow> int" where
  "round_even x =
     (let f = \<lfloor>x\<rfloor>
      in if x - of_int f < 1 / 2 then f
         else if 1 / 2 < x - of_int f then f + 1
         else if even f then f else f + 1)"

text \<open>
  Rounding a real number to a format of \<open>p\<close> significant bits with exponents from
  \<open>emin\<close> to \<open>emax\<close>: the nearest multiple of the unit in the last place of the binade
  of \<open>x\<close> (of the lowest binade for a subnormal); a result of \<open>2 ^ (emax + 1)\<close> or more
  is an overflow to infinity.
\<close>

definition round_to :: "nat \<Rightarrow> int \<Rightarrow> int \<Rightarrow> real \<Rightarrow> fp" where
  "round_to p emin emax x =
     (if x = 0 then Fin 0
      else
        let e = max \<lfloor>log 2 \<bar>x\<bar>\<rfloor> emin - (int p - 1);
            y = of_int (round_even (x / 2 powi e)) * 2 powi e
        in if 2 powi (emax + 1) \<le> \<bar>y\<bar> then Beyond else Fin y)"

definition to_float :: "real \<Rightarrow> fp" where
  "to_float = round_to 24 (- 126) 127"

definition to_double :: "real \<Rightarrow> fp" where
  "to_double = round_to 53 (- 1022) 1023"

text \<open>
  The operations of the source on these values. An arithmetic operation on two finite
  numbers is the exact operation followed by the rounding of its type; with a NaN
  operand and no \<open>Beyond\<close> the result is NaN. A division of a nonzero number by zero is
  an infinity, \<open>0 / 0\<close> is NaN. A comparison with a NaN is false.
\<close>

fun isnan :: "fp \<Rightarrow> bool" where
  "isnan NaN = True"
| "isnan a = False"

fun fp_neg :: "fp \<Rightarrow> fp" where
  "fp_neg (Fin x) = Fin (- x)"
| "fp_neg a = a"

fun fp_arith :: "(real \<Rightarrow> fp) \<Rightarrow> (real \<Rightarrow> real \<Rightarrow> real) \<Rightarrow> fp \<Rightarrow> fp \<Rightarrow> fp" where
  "fp_arith rnd f (Fin x) (Fin y) = rnd (f x y)"
| "fp_arith rnd f Beyond b = Beyond"
| "fp_arith rnd f a Beyond = Beyond"
| "fp_arith rnd f a b = NaN"

definition fmul :: "fp \<Rightarrow> fp \<Rightarrow> fp" where
  "fmul = fp_arith to_float (*)"

definition fadd :: "fp \<Rightarrow> fp \<Rightarrow> fp" where
  "fadd = fp_arith to_float (+)"

definition dadd :: "fp \<Rightarrow> fp \<Rightarrow> fp" where
  "dadd = fp_arith to_double (+)"

fun fdiv :: "fp \<Rightarrow> fp \<Rightarrow> fp" where
  "fdiv (Fin x) (Fin y) =
     (if y = 0 then (if x = 0 then NaN else Beyond) else to_float (x / y))"
| "fdiv Beyond b = Beyond"
| "fdiv a Beyond = Beyond"
| "fdiv a b = NaN"

fun fp_lt :: "fp \<Rightarrow> fp \<Rightarrow> bool" where
  "fp_lt (Fin x) (Fin y) = (x < y)"
| "fp_lt a b = False"

fun fp_ge :: "fp \<Rightarrow> fp \<Rightarrow> bool" where
  "fp_ge (Fin x) (Fin y) = (y \<le> x)"
| "fp_ge a b = False"

text \<open>
  \<open>std::fmod\<close> on \<open>double\<close>: \<open>x - y * trunc (x / y)\<close>, which is exact. Conversion from
  \<open>float\<close> to \<open>double\<close> is exact too and is not written; \<open>cast_float\<close> is the
  conversion from \<open>double\<close> to \<open>float\<close>.
\<close>

definition trunc :: "real \<Rightarrow> int" where
  "trunc q = (if 0 \<le> q then \<lfloor>q\<rfloor> else \<lceil>q\<rceil>)"

fun fp_fmod :: "fp \<Rightarrow> fp \<Rightarrow> fp" where
  "fp_fmod (Fin x) (Fin y) = (if y = 0 then NaN else Fin (x - y * of_int (trunc (x / y))))"
| "fp_fmod Beyond b = Beyond"
| "fp_fmod a Beyond = Beyond"
| "fp_fmod a b = NaN"

fun cast_float :: "fp \<Rightarrow> fp" where
  "cast_float (Fin x) = to_float x"
| "cast_float a = a"

text \<open>
  \<open>std::cos\<close> and \<open>std::sin\<close> on \<open>float\<close>: the library functions are taken to
  return the correctly rounded value. At the argument 0, where the statements below use
  them, the results 1 and 0 are exact.
\<close>

fun cos_f :: "fp \<Rightarrow> fp" where
  "cos_f (Fin x) = to_float (cos x)"
| "cos_f a = a"

fun sin_f :: "fp \<Rightarrow> fp" where
  "sin_f (Fin x) = to_float (sin x)"
| "sin_f a = a"

text \<open>The conversion of \<open>unsigned long long\<close> to \<open>float\<close>.\<close>

definition ull_to_float :: "64 word \<Rightarrow> fp" where
  "ull_to_float n = to_float (real (unat n))"

text \<open>The literal \<open>3.14159265359f\<close>.\<close>

definition INTELLIAN_PI :: fp where
  "INTELLIAN_PI = to_float (314159265359 / 100000000000)"

definition to_radian :: "fp \<Rightarrow> fp" where
  "to_radian deg = fdiv (fmul deg INTELLIAN_PI) (Fin 180)"

definition to_degree :: "fp \<Rightarrow> fp" where
  "to_degree rad = fdiv (fmul rad (Fin 180)) INTELLIAN_PI"

text \<open>
  \<open>normalize_degrees\<close>: the comparisons with the \<open>double\<close> literals are exact;
  \<open>norm\<close> is a \<open>float\<close>, so the result of \<open>std::fmod\<close> is converted, and
  \<open>norm += 360.0\<close> adds in \<open>double\<close> and converts the sum to \<open>float\<close>.
\<close>

definition normalize_degrees :: "fp \<Rightarrow> fp" where
  "normalize_degrees degrees =
     (if fp_ge degrees (Fin 0) \<and> fp_lt degrees (Fin 360) then degrees
      else
        let norm = cast_float (fp_fmod degrees (Fin 360))
        in if fp_lt norm (Fin 0) then cast_float (dadd norm (Fin 360)) else norm)"

text \<open>
  \<open>phase\<close>. The globals \<open>az_value\<close>, \<open>el_value\<close> and \<open>freq_Hz\<close> are arguments.
  Every operation is rounded to \<open>float\<close> on its own (\<open>FLT_EVAL_METHOD\<close> 0, no fused
  multiply-add); the integer operands \<open>freq_Hz\<close> and \<open>1000\<close> are converted to
  \<open>float\<close>. The output on \<open>cout\<close> is left out.
\<close>

definition SPEED_OF_LIGHT :: fp where
  "SPEED_OF_LIGHT = to_float 300000000"

definition phase :: "fp \<Rightarrow> fp \<Rightarrow> 64 word \<Rightarrow> fp \<Rightarrow> fp \<Rightarrow> fp" where
  "phase az_value el_value freq_Hz xi yi =
     (if isnan az_value \<or> isnan el_value \<or> freq_Hz = 0 then Fin 0
      else
        let impl_phi = fp_neg az_value;
            phi_rad = to_radian impl_phi;
            c_theta = cos_f (to_radian el_value);
            c_phi = cos_f phi_rad;
            s_phi = sin_f phi_rad;
            lambda = fdiv SPEED_OF_LIGHT (ull_to_float freq_Hz);
            k0 = fdiv (fdiv (fmul (Fin (- 2)) INTELLIAN_PI) lambda) (Fin 1000);
            p = to_degree (fmul k0 (fadd (fmul (fmul xi c_theta) c_phi)
                                         (fmul (fmul yi c_theta) s_phi)));
            p_nor = normalize_degrees p
        in p_nor)"


section \<open>Notions used to state the properties\<close>

subsection \<open>Of the engine\<close>

text \<open>
  The register map of the interface description: the block of bus \<open>b\<close> starts at
  \<open>0x43C40000 + b * 0x10000\<close>; \<open>+0x00\<close> interrupt status, \<open>+0x0C\<close> remaining FIFO
  size, \<open>+0x10\<close> FIFO data, \<open>+0x14\<close> send length, \<open>+0x2C\<close> bus control.
\<close>

definition bus_base :: "nat \<Rightarrow> nat" where
  "bus_base b = 0x43C40000 + b * 0x10000"

definition close_sequence :: "nat \<Rightarrow> hw_op list" where
  "close_sequence b =
     [HwWrite (bus_base b + 0x14) 0x280, HwRead (bus_base b),
      HwWrite (bus_base b) 0xffffffff, HwRead (bus_base b + 0xC)]"

definition open_sequence :: "nat \<Rightarrow> hw_op list" where
  "open_sequence b = [HwWrite (bus_base b + 0x2C) 0x2]"

text \<open>What a full bus adds to the calls: its close sequence and, up to bus 6, the
  open sequence of the next bus.\<close>

definition bus_turn :: "nat \<Rightarrow> hw_op list" where
  "bus_turn b = close_sequence b @ (if b < 7 then open_sequence (b + 1) else [])"

fun op_address :: "hw_op \<Rightarrow> nat" where
  "op_address (HwWrite a v) = a"
| "op_address (HwRead a) = a"

text \<open>The calls other than the writes of data words to a FIFO data register.\<close>

fun is_fifo_data :: "hw_op \<Rightarrow> bool" where
  "is_fifo_data (HwWrite a v) = (a mod 0x10000 = 0x10)"
| "is_fifo_data (HwRead a) = False"

definition control_ops :: "hw_op list \<Rightarrow> hw_op list" where
  "control_ops ops = filter (\<lambda>x. \<not> is_fifo_data x) ops"

text \<open>
  A byte sequence cut into groups of four from the front: the big-endian words of the
  full groups, and the bytes (fewer than four) that are left.
\<close>

fun packed_words :: "byte list \<Rightarrow> uint32_t list" where
  "packed_words (a # b # c # d # rest) = be_word [a, b, c, d] # packed_words rest"
| "packed_words bs = []"

fun leftover :: "byte list \<Rightarrow> byte list" where
  "leftover (a # b # c # d # rest) = leftover rest"
| "leftover bs = bs"






text \<open>
  The position of the cursor \<open>(bus_id, ucIcAddr, reg_idx)\<close> in a run: the number of
  values consumed so far, while the cursor is in its range.
\<close>

definition cursor_ok :: "byte \<Rightarrow> byte \<Rightarrow> nat \<Rightarrow> bool" where
  "cursor_ok bus_id ucIcAddr reg_idx \<longleftrightarrow> unat bus_id < 8 \<and> unat ucIcAddr < 32 \<and> reg_idx < 4"

definition cursor_pos :: "byte \<Rightarrow> byte \<Rightarrow> nat \<Rightarrow> nat" where
  "cursor_pos bus_id ucIcAddr reg_idx = unat bus_id * 128 + unat ucIcAddr * 4 + reg_idx"

definition engine_init :: engine where
  "engine_init = \<lparr> byte_queues = (\<lambda>k. []), hw = [], closes = [] \<rparr>"

text \<open>
  Splitting a line at spaces and \<open>&\<close>, as the interface description has it: the
  tokens are the maximal runs of other characters, in order. \<open>cur\<close> is the token
  that is being read.
\<close>

fun split_acc :: "string \<Rightarrow> string \<Rightarrow> string list" where
  "split_acc cur [] = (if cur = [] then [] else [cur])"
| "split_acc cur (c # cs) =
     (if is_delim c then (if cur = [] then [] else [cur]) @ split_acc [] cs
      else split_acc (cur @ [c]) cs)"

definition split_tokens :: "string \<Rightarrow> string list" where
  "split_tokens s = split_acc [] s"

subsection \<open>Of the frame handler\<close>

text \<open>
  The frames that one call of \<open>OnReceive\<close> decodes, in order: the results of its calls
  of \<open>DecodeFrame\<close>, each made behind the frame before, up to the end of the packet or
  the first call that throws.
\<close>

function decoded_frames :: "endian \<Rightarrow> nat \<Rightarrow> byte list \<Rightarrow> int \<Rightarrow> int \<Rightarrow> Frame list" where
  "decoded_frames e wbits packet len processed =
     (if processed < len then
        (case DecodeFrame e wbits (drop (nat processed) packet) (len - processed) of
           Inl err \<Rightarrow> []
         | Inr decoded \<Rightarrow> decoded # decoded_frames e wbits packet len (processed + Length decoded))
      else [])"
  by pat_completeness auto
termination
  by (relation "measure (\<lambda>(e, wbits, packet, len, processed). nat (len - processed))")
     (auto simp: Length_def sizeof_Header_def)

declare decoded_frames.simps [simp del]

text \<open>The bytes of an ACK frame on the wire: magic, sequence number, type ACK and
  length 0, each in network order.\<close>

definition ack_frame :: "uint32_t \<Rightarrow> byte list" where
  "ack_frame sq = be_bytes MSG_STRAT_CODE @ be_bytes sq @ be_bytes MSG_ACK @ be_bytes 0"

text \<open>What a sequence of events hands to the send callback, to the pre-message hook
  and to the message handler.\<close>

definition sent :: "event list \<Rightarrow> byte list list" where
  "sent evs = [bs. EvSend bs \<leftarrow> evs]"

definition pre_messages :: "event list \<Rightarrow> Frame list" where
  "pre_messages evs = [f. EvPreMessage f \<leftarrow> evs]"

definition handled :: "event list \<Rightarrow> (Header \<times> byte list) list" where
  "handled evs = [(h, m). EvOnMessage h m \<leftarrow> evs]"


section \<open>Properties of the wire protocol\<close>

subsection \<open>Byte order\<close>

lemma be_word_be_bytes: "be_word (be_bytes w) = w"
  unfolding be_bytes_def
  apply simp
  apply (rule bit_word_eqI)
  subgoal for n
    by (cases "n < 8"; cases "n < 16"; cases "n < 24") (auto simp: bit_simps)
  done

lemma be_bytes_be_word: "be_bytes (be_word [a, b, c, d]) = [a, b, c, d]"
  unfolding be_bytes_def
  apply simp
  apply (intro conjI bit_word_eqI)
  apply (auto simp: bit_simps dest: bit_imp_le_length)
  done

lemma list4: "length bs = 4 \<Longrightarrow> \<exists>a b c d. bs = [a, b, c, d]"
  by (auto simp: length_Suc_conv eval_nat_numeral)

lemma bswap32_be_word: 
  assumes "length bs = 4" shows "bswap32 (be_word (rev bs)) = be_word bs"
proof -
  obtain a b c d where bs: "bs = [a, b, c, d]" using list4[OF assms] by blast
  have "be_bytes (be_word [d, c, b, a]) = [d, c, b, a]" by (rule be_bytes_be_word)
  then show ?thesis unfolding bswap32_def bs by simp
qed

lemma ntohl_host_load: "length bs = 4 \<Longrightarrow> ntohl e (host_load e bs) = be_word bs"
  by (cases e) (simp_all add: ntohl_def host_load_def bswap32_be_word)

lemma length_be_bytes: "length (be_bytes w) = 4"
  by (simp add: be_bytes_def)

lemma bswap32_bytes: "be_bytes (bswap32 w) = rev (be_bytes w)"
proof -
  obtain a b c d where bs: "be_bytes w = [a, b, c, d]" using list4[OF length_be_bytes] by blast
  have "be_bytes (be_word [d, c, b, a]) = [d, c, b, a]" by (rule be_bytes_be_word)
  then show ?thesis unfolding bswap32_def bs by simp
qed

lemma host_store_htonl: "host_store e (htonl e w) = be_bytes w"
  by (cases e) (simp_all add: host_store_def htonl_def bswap32_bytes)

lemma be_bytes_take4: 
  assumes "4 \<le> length xs" shows "be_bytes (be_word (take 4 xs)) = take 4 xs"
proof -
  have "length (take 4 xs) = 4" using assms by simp
  then obtain a b c d where bs: "take 4 xs = [a, b, c, d]" using list4 by blast
  show ?thesis unfolding bs by (rule be_bytes_be_word)
qed

lemma take16_split:
  "take 16 raw = take 4 raw @ take 4 (drop 4 raw) @ take 4 (drop 8 raw) @ take 4 (drop 12 raw)"
proof -
  have "take (4 + (4 + (4 + 4))) raw = take 4 raw @ take 4 (drop 4 raw) @ take 4 (drop 8 raw) @ take 4 (drop 12 raw)"
    unfolding take_add by simp
  then show ?thesis by simp
qed

lemma header_roundtrip:
  assumes "16 \<le> length raw"
  shows "header_bytes e (ToNetwork e (FromNetwork e raw)) = take 16 raw"
  using assms
  by (simp add: take16_split header_bytes_def ToNetwork_def FromNetwork_def host_store_htonl ntohl_host_load be_bytes_take4)
 

lemma message_length_FromNetwork:
  "16 \<le> length buf \<Longrightarrow> message_length (FromNetwork e buf) = be_word (take 4 (drop 12 buf))"
  by (simp add: FromNetwork_def ntohl_host_load)

lemma to_size_t_id: "0 \<le> i \<Longrightarrow> i < 2 ^ wbits \<Longrightarrow> to_size_t wbits i = nat i"
  by (simp add: to_size_t_def)


subsection \<open>Decoding and serializing again\<close>

text \<open>
  Claim C2, as the code has it. \<open>DecodeFrame\<close> leaves the header of the frame in host
  order and \<open>DeepCopy\<close> copies the header as it lies in memory. What gives the bytes of
  the wire back is \<open>DeepCopy\<close> after \<open>ToNetwork\<close> on the header, the way \<open>Ack\<close>
  builds the frames it sends: for every buffer that \<open>DecodeFrame\<close> accepts, this
  yields the first \<open>sizeof(Header) + message_length\<close> bytes of the buffer, on a host
  of either byte order.
\<close>

theorem DecodeFrame_reserialize:
  assumes "DecodeFrame e wbits buf len = Inr f"
  shows "DeepCopy e (f\<lparr>head := ToNetwork e (head f)\<rparr>) =
           take (sizeof_Header + unat (message_length (head f))) buf"
proof -
  from assms have len: "sizeof_Header \<le> length buf"
    and f: "f = \<lparr> head = FromNetwork e buf,
                 Frame.message = take (unat (message_length (FromNetwork e buf))) (drop sizeof_Header buf) \<rparr>"
    by (auto simp: DecodeFrame_def Let_def split: if_splits)
  have "header_bytes e (ToNetwork e (FromNetwork e buf)) = take 16 buf"
    using len by (simp add: header_roundtrip sizeof_Header_def)
  then show ?thesis
    by (simp add: f DeepCopy_def sizeof_Header_def take_add)
qed

theorem DecodeFrame_reserialize_witness:
  "DecodeFrame LittleEndian 64
     [0x10, 0x77, 0xE1, 0x10, 0, 0, 0, 7, 0, 0, 0, 2, 0, 0, 0, 1, 0x41, 0x42] 18 =
     Inr \<lparr> head = \<lparr> start = 0x1077E110, sequence = 7, message_type = 2, message_length = 1 \<rparr>,
           Frame.message = [0x41] \<rparr>
   \<and> DeepCopy LittleEndian
       (\<lparr> head = \<lparr> start = 0x1077E110, sequence = 7, message_type = 2, message_length = 1 \<rparr>,
          Frame.message = [0x41] \<rparr>\<lparr>head := ToNetwork LittleEndian
            \<lparr> start = 0x1077E110, sequence = 7, message_type = 2, message_length = 1 \<rparr>\<rparr>) =
     [0x10, 0x77, 0xE1, 0x10, 0, 0, 0, 7, 0, 0, 0, 2, 0, 0, 0, 1, 0x41]"
proof -
  have d: "DecodeFrame LittleEndian 64
             [0x10, 0x77, 0xE1, 0x10, 0, 0, 0, 7, 0, 0, 0, 2, 0, 0, 0, 1, 0x41, 0x42] 18 =
           Inr \<lparr> head = \<lparr> start = 0x1077E110, sequence = 7, message_type = 2, message_length = 1 \<rparr>,
                 Frame.message = [0x41] \<rparr>"
    by (simp add: DecodeFrame_def to_size_t_def sizeof_Header_def FromNetwork_def ntohl_def
        host_load_def bswap32_def be_bytes_def Let_def)
  show ?thesis using DecodeFrame_reserialize [OF d] d by (simp add: sizeof_Header_def)
qed

text \<open>
  Claim C2 as it is written fails. On a little-endian host the frame of 16 bytes below
  is accepted, and \<open>DeepCopy\<close> of the decoded frame gives every header field with its
  bytes reversed. On a big-endian host the header comes back as it was, but a buffer
  that holds more than the frame (here one byte more) is not reproduced either: the
  decoded frame ends with its payload.
\<close>

theorem DecodeFrame_DeepCopy_counterexample:
  "DecodeFrame LittleEndian 64
     [0x10, 0x77, 0xE1, 0x10, 0, 0, 0, 7, 0, 0, 0, 2, 0, 0, 0, 0] 16 =
     Inr \<lparr> head = \<lparr> start = 0x1077E110, sequence = 7, message_type = 2, message_length = 0 \<rparr>,
           Frame.message = [] \<rparr>
   \<and> DeepCopy LittleEndian
       \<lparr> head = \<lparr> start = 0x1077E110, sequence = 7, message_type = 2, message_length = 0 \<rparr>,
         Frame.message = [] \<rparr> =
     [0x10, 0xE1, 0x77, 0x10, 7, 0, 0, 0, 2, 0, 0, 0, 0, 0, 0, 0]
   \<and> [0x10, 0xE1, 0x77, 0x10, 7, 0, 0, 0, 2, 0, 0, 0, 0, 0, 0, 0] \<noteq>
     [0x10, 0x77, 0xE1, 0x10, 0, 0, 0, 7, 0, 0, 0, 2, 0, 0, 0, (0::byte)]
   \<and> DecodeFrame BigEndian 64
     [0x10, 0x77, 0xE1, 0x10, 0, 0, 0, 7, 0, 0, 0, 2, 0, 0, 0, 0, 0x55] 17 =
     Inr \<lparr> head = \<lparr> start = 0x1077E110, sequence = 7, message_type = 2, message_length = 0 \<rparr>,
           Frame.message = [] \<rparr>
   \<and> DeepCopy BigEndian
       \<lparr> head = \<lparr> start = 0x1077E110, sequence = 7, message_type = 2, message_length = 0 \<rparr>,
         Frame.message = [] \<rparr> =
     [0x10, 0x77, 0xE1, 0x10, 0, 0, 0, 7, 0, 0, 0, 2, 0, 0, 0, 0]
   \<and> [0x10, 0x77, 0xE1, 0x10, 0, 0, 0, 7, 0, 0, 0, 2, 0, 0, 0, 0] \<noteq>
     [0x10, 0x77, 0xE1, 0x10, 0, 0, 0, 7, 0, 0, 0, 2, 0, 0, 0, 0, (0x55::byte)]"
proof -
  have "DecodeFrame LittleEndian 64
     [0x10, 0x77, 0xE1, 0x10, 0, 0, 0, 7, 0, 0, 0, 2, 0, 0, 0, 0] 16 =
     Inr \<lparr> head = \<lparr> start = 0x1077E110, sequence = 7, message_type = 2, message_length = 0 \<rparr>,
           Frame.message = [] \<rparr>"
    by (simp add: DecodeFrame_def to_size_t_def sizeof_Header_def FromNetwork_def ntohl_def
        host_load_def bswap32_def be_bytes_def Let_def)
  moreover have "DeepCopy LittleEndian
       \<lparr> head = \<lparr> start = 0x1077E110, sequence = 7, message_type = 2, message_length = 0 \<rparr>,
         Frame.message = [] \<rparr> =
     [0x10, 0xE1, 0x77, 0x10, 7, 0, 0, 0, 2, 0, 0, 0, 0, 0, 0, 0]"
    by (simp add: DeepCopy_def header_bytes_def host_store_def be_bytes_def)
  moreover have "DecodeFrame BigEndian 64
     [0x10, 0x77, 0xE1, 0x10, 0, 0, 0, 7, 0, 0, 0, 2, 0, 0, 0, 0, 0x55] 17 =
     Inr \<lparr> head = \<lparr> start = 0x1077E110, sequence = 7, message_type = 2, message_length = 0 \<rparr>,
           Frame.message = [] \<rparr>"
    by (simp add: DecodeFrame_def to_size_t_def sizeof_Header_def FromNetwork_def ntohl_def
        host_load_def Let_def)
  moreover have "DeepCopy BigEndian
       \<lparr> head = \<lparr> start = 0x1077E110, sequence = 7, message_type = 2, message_length = 0 \<rparr>,
         Frame.message = [] \<rparr> =
     [0x10, 0x77, 0xE1, 0x10, 0, 0, 0, 7, 0, 0, 0, 2, 0, 0, 0, 0]"
    by (simp add: DeepCopy_def header_bytes_def host_store_def be_bytes_def)
  ultimately show ?thesis by simp
qed

subsection \<open>The outcomes of DecodeFrame\<close>

text \<open>
  Where \<open>len\<close> counts bytes that lie at \<open>frame\<close> (it is not negative, not more than
  the buffer holds, and it fits \<open>size_t\<close>) \<open>DecodeFrame\<close> has the three outcomes of
  the interface description. The declared \<open>message_length\<close> is the big-endian value
  of the bytes 12 to 15.
  \<^item> If \<open>len\<close> is less than the header size, \<open>DecodeFrame\<close> throws the not-ready
    error. Nothing is consumed: \<open>OnReceive\<close>, arrived at such a rest of its packet, ends
    with that error and \<open>processed\<close> is unchanged.
  \<^item> If the header is there and \<open>message_length\<close> is more than the bytes after the
    header, \<open>DecodeFrame\<close> throws the malformed-frame error, provided the sum
    \<open>sizeof(head) + message_length\<close> does not wrap in \<open>size_t\<close> (it never does with
    64 bits).
  \<^item> Otherwise the result is a frame with that \<open>message_length\<close>, whose payload is
    exactly the \<open>message_length\<close> bytes after the header.
\<close>

theorem DecodeFrame_outcomes:
  assumes "0 \<le> len" and "len < 2 ^ wbits" and "len \<le> int (length buf)"
  shows "(len < 16 \<longrightarrow>
            DecodeFrame e wbits buf len = Inl NotReady \<and>
            OnReceive_loop e wbits (pre @ buf) (int (length pre) + len) (int (length pre)) evs =
              (evs, int (length pre), if 0 < len then Threw NotReady else Completed)) \<and>
         (16 \<le> len \<and> 16 + unat (be_word (take 4 (drop 12 buf))) < 2 ^ wbits \<and>
          nat len < 16 + unat (be_word (take 4 (drop 12 buf))) \<longrightarrow>
            DecodeFrame e wbits buf len =
              Inl (Malformed len (16 + unat (be_word (take 4 (drop 12 buf)))))) \<and>
         (16 + unat (be_word (take 4 (drop 12 buf))) \<le> nat len \<longrightarrow>
            (\<exists>h. DecodeFrame e wbits buf len =
               Inr \<lparr> head = h, Frame.message = take (unat (be_word (take 4 (drop 12 buf)))) (drop 16 buf) \<rparr>
               \<and> message_length h = be_word (take 4 (drop 12 buf))
               \<and> length (take (unat (be_word (take 4 (drop 12 buf)))) (drop 16 buf)) =
                   unat (message_length h)))"
proof (intro conjI impI)
  assume small: "len < 16"
  then have "nat len < 16" using assms(1) by linarith
  then show nr: "DecodeFrame e wbits buf len = Inl NotReady"
    using assms by (simp add: DecodeFrame_def to_size_t_id sizeof_Header_def)
  show "OnReceive_loop e wbits (pre @ buf) (int (length pre) + len) (int (length pre)) evs =
          (evs, int (length pre), if 0 < len then Threw NotReady else Completed)"
    by (subst OnReceive_loop.simps) (simp add: nr)
next
  let ?L = "unat (be_word (take 4 (drop 12 buf)))"
  assume a: "16 \<le> len \<and> 16 + ?L < 2 ^ wbits \<and> nat len < 16 + ?L"
  then have lb: "16 \<le> length buf" and n16: "\<not> nat len < 16" using assms by linarith+
  from a have md: "(16 + ?L) mod 2 ^ wbits = 16 + ?L" by simp
  show "DecodeFrame e wbits buf len = Inl (Malformed len (16 + ?L))"
    using assms(1,2) a lb n16
    by (simp add: DecodeFrame_def to_size_t_id sizeof_Header_def message_length_FromNetwork
        Let_def md)
next
  let ?L = "unat (be_word (take 4 (drop 12 buf)))"
  assume fit: "16 + ?L \<le> nat len"
  then have lb: "16 \<le> length buf" and n16: "\<not> nat len < 16" using assms by linarith+
  have "nat len < 2 ^ wbits" using assms(1,2) by (simp add: nat_less_iff)
  then have "16 + ?L < 2 ^ wbits" using fit by linarith
  then have md: "(16 + ?L) mod 2 ^ wbits = 16 + ?L" by simp
  have lenb: "?L \<le> length buf - 16" using fit assms(3) by linarith
  have nl: "\<not> nat len < 16 + ?L" using fit by linarith
  show "\<exists>h. DecodeFrame e wbits buf len = Inr \<lparr> head = h, Frame.message = take ?L (drop 16 buf) \<rparr>
          \<and> message_length h = be_word (take 4 (drop 12 buf))
          \<and> length (take ?L (drop 16 buf)) = unat (message_length h)"
    apply (rule exI[of _ "FromNetwork e buf"])
    using assms(1,2) lb n16 lenb nl
    by (simp add: DecodeFrame_def to_size_t_id sizeof_Header_def message_length_FromNetwork
        Let_def md)
qed

theorem DecodeFrame_outcomes_witness:
  "DecodeFrame LittleEndian 32 [0x10, 0x77, 0xE1] 3 = Inl NotReady
   \<and> OnReceive_loop LittleEndian 32 ([0xAA, 0xBB] @ [0x10, 0x77, 0xE1]) (int (length [0xAA, 0xBB :: byte]) + 3)
        (int (length [0xAA, 0xBB :: byte])) [] =
       ([], int (length [0xAA, 0xBB :: byte]), Threw NotReady)
   \<and> DecodeFrame LittleEndian 32
        [0x10, 0x77, 0xE1, 0x10, 0, 0, 0, 7, 0, 0, 0, 2, 0, 0, 0, 5, 0x41, 0x42] 18 =
       Inl (Malformed 18 21)
   \<and> DecodeFrame LittleEndian 32
        [0x10, 0x77, 0xE1, 0x10, 0, 0, 0, 7, 0, 0, 0, 2, 0, 0, 0, 1, 0x41, 0x42] 18 =
       Inr \<lparr> head = \<lparr> start = 0x1077E110, sequence = 7, message_type = 2, message_length = 1 \<rparr>,
             Frame.message = [0x41] \<rparr>"
proof -
  have five: "be_word (take 4 (drop 12
      [0x10, 0x77, 0xE1, 0x10, 0, 0, 0, 7, 0, 0, 0, 2, 0, 0, 0, 5, 0x41, 0x42])) = 5"
    and one: "be_word (take 4 (drop 12
      [0x10, 0x77, 0xE1, 0x10, 0, 0, 0, 7, 0, 0, 0, 2, 0, 0, 0, 1, 0x41, 0x42])) = 1"
    by simp_all
  have h: "FromNetwork LittleEndian
      [0x10, 0x77, 0xE1, 0x10, 0, 0, 0, 7, 0, 0, 0, 2, 0, 0, 0, 1, 0x41, 0x42] =
      \<lparr> start = 0x1077E110, sequence = 7, message_type = 2, message_length = 1 \<rparr>"
    by (simp add: FromNetwork_def ntohl_def host_load_def bswap32_def be_bytes_def)
  have a: "DecodeFrame LittleEndian 32 [0x10, 0x77, 0xE1] 3 = Inl NotReady
           \<and> OnReceive_loop LittleEndian 32 ([0xAA, 0xBB] @ [0x10, 0x77, 0xE1])
                (int (length [0xAA, 0xBB :: byte]) + 3) (int (length [0xAA, 0xBB :: byte])) [] =
               ([], int (length [0xAA, 0xBB :: byte]), Threw NotReady)"
    using DecodeFrame_outcomes [of 3 32 "[0x10, 0x77, 0xE1]" LittleEndian "[0xAA, 0xBB]" "[]"]
    by simp
  have b: "DecodeFrame LittleEndian 32
        [0x10, 0x77, 0xE1, 0x10, 0, 0, 0, 7, 0, 0, 0, 2, 0, 0, 0, 5, 0x41, 0x42] 18 =
       Inl (Malformed 18 21)"
    using DecodeFrame_outcomes [of 18 32
        "[0x10, 0x77, 0xE1, 0x10, 0, 0, 0, 7, 0, 0, 0, 2, 0, 0, 0, 5, 0x41, 0x42]" LittleEndian]
    unfolding five by simp
  have "\<exists>h. DecodeFrame LittleEndian 32
        [0x10, 0x77, 0xE1, 0x10, 0, 0, 0, 7, 0, 0, 0, 2, 0, 0, 0, 1, 0x41, 0x42] 18 =
       Inr \<lparr> head = h, Frame.message = [0x41] \<rparr>"
    using DecodeFrame_outcomes [of 18 32
        "[0x10, 0x77, 0xE1, 0x10, 0, 0, 0, 7, 0, 0, 0, 2, 0, 0, 0, 1, 0x41, 0x42]" LittleEndian]
    unfolding one by auto
  then have c: "DecodeFrame LittleEndian 32
        [0x10, 0x77, 0xE1, 0x10, 0, 0, 0, 7, 0, 0, 0, 2, 0, 0, 0, 1, 0x41, 0x42] 18 =
       Inr \<lparr> head = \<lparr> start = 0x1077E110, sequence = 7, message_type = 2, message_length = 1 \<rparr>,
             Frame.message = [0x41] \<rparr>"
    by (auto simp: DecodeFrame_def h Let_def split: if_splits)
  from a b c show ?thesis by simp
qed

text \<open>
  Claim C6 speaks of every buffer and every length, and there the code does not keep
  it: both comparisons of \<open>DecodeFrame\<close> are made in \<open>size_t\<close>.
  \<^item> A negative \<open>len\<close> is converted to a large \<open>size_t\<close>. With \<open>len = -1\<close>, less
    than the header size, the call is not answered with the not-ready error: where a
    header that declares one payload byte and that byte lie at \<open>frame\<close>, the frame is
    returned.
  \<^item> With a \<open>size_t\<close> of 32 bits the sum \<open>sizeof(head) + message_length\<close> wraps from
    \<open>message_length = 0xFFFFFFF0\<close> on. A packet of 16 bytes whose header declares
    \<open>0xFFFFFFF0\<close> payload bytes has none of them, and the call is not answered with the
    malformed-frame error: the sum is 0, the check passes and the code goes on to copy
    payload bytes that are not there.
\<close>

theorem DecodeFrame_unchecked_lengths:
  "DecodeFrame LittleEndian 64
     [0x10, 0x77, 0xE1, 0x10, 0, 0, 0, 7, 0, 0, 0, 2, 0, 0, 0, 1, 0x41] (- 1) =
     Inr \<lparr> head = \<lparr> start = 0x1077E110, sequence = 7, message_type = 2, message_length = 1 \<rparr>,
           Frame.message = [0x41] \<rparr>
   \<and> DecodeFrame LittleEndian 32
     [0x10, 0x77, 0xE1, 0x10, 0, 0, 0, 7, 0, 0, 0, 2, 0xFF, 0xFF, 0xFF, 0xF0] 16 =
     Inl BufferOverrun"
  by (simp add: DecodeFrame_def to_size_t_def sizeof_Header_def FromNetwork_def ntohl_def
      host_load_def bswap32_def be_bytes_def Let_def)

subsection \<open>What OnReceive does with the frames it decodes\<close>

lemma OnReceive_loop_step:
  assumes "processed < len"
    and "DecodeFrame e wbits (drop (nat processed) packet) (len - processed) = Inr f"
  shows "OnReceive_loop e wbits packet len processed evs =
           OnReceive_loop e wbits packet len (processed + Length f) (evs @ handle_decoded e f)"
  by (subst OnReceive_loop.simps) (simp add: assms)

lemma OnReceive_loop_frames:
  "fst (OnReceive_loop e wbits packet len processed evs) =
     evs @ concat (map (handle_decoded e) (decoded_frames e wbits packet len processed))
   \<and> fst (snd (OnReceive_loop e wbits packet len processed evs)) =
       processed + sum_list (map Length (decoded_frames e wbits packet len processed))"
proof (induction e wbits packet len processed evs rule: OnReceive_loop.induct)
  case (1 e wbits packet len processed evs)
  show ?case
  proof (cases "processed < len")
    case False
    then show ?thesis
      by (subst OnReceive_loop.simps, subst (1 2) decoded_frames.simps,
          subst (2) OnReceive_loop.simps) simp
  next
    case True
    show ?thesis
    proof (cases "DecodeFrame e wbits (drop (nat processed) packet) (len - processed)")
      case (Inl err)
      then show ?thesis using True
        by (subst OnReceive_loop.simps, subst (1 2) decoded_frames.simps,
            subst (2) OnReceive_loop.simps) simp
    next
      case (Inr f)
      have fr: "decoded_frames e wbits packet len processed =
                  f # decoded_frames e wbits packet len (processed + Length f)"
        by (subst decoded_frames.simps) (simp add: True Inr)
      show ?thesis
        using "1.IH" [OF True Inr]
        by (simp add: OnReceive_loop_step [OF True Inr] fr)
    qed
  qed
qed

lemma handle_decoded_sends:
  "(\<exists>bs. EvSend bs \<in> set (handle_decoded e f)) \<longleftrightarrow>
     start (head f) = MSG_STRAT_CODE \<and> message_type (head f) \<noteq> MSG_ACK"
  by (auto simp: handle_decoded_def OnPreMessage_def Ack_def Send_def)

lemma handle_decoded_ack:
  "EvSend bs \<in> set (handle_decoded e f) \<Longrightarrow> bs = ack_frame (sequence (head f))"
  by (auto simp: handle_decoded_def OnPreMessage_def Ack_def Send_def DeepCopy_def
      header_bytes_def ToNetwork_def host_store_htonl ack_frame_def split: if_splits)

lemma sent_handle_decoded:
  "sent (handle_decoded e f) =
     (if start (head f) = MSG_STRAT_CODE \<and> message_type (head f) \<noteq> MSG_ACK
      then [ack_frame (sequence (head f))] else [])"
  by (simp add: sent_def handle_decoded_def OnPreMessage_def Ack_def Send_def DeepCopy_def
      header_bytes_def ToNetwork_def host_store_htonl ack_frame_def)

lemma pre_messages_handle_decoded:
  "pre_messages (handle_decoded e f) = (if start (head f) = MSG_STRAT_CODE then [f] else [])"
  by (simp add: pre_messages_def handle_decoded_def OnPreMessage_def Ack_def Send_def)

lemma handled_handle_decoded:
  "handled (handle_decoded e f) =
     (if start (head f) = MSG_STRAT_CODE \<and> message_type (head f) = MSG_LINES
      then [(head f, Frame.message f)] else [])"
  by (simp add: handled_def handle_decoded_def OnPreMessage_def Ack_def Send_def)

lemma sent_frames:
  "sent (concat (map (handle_decoded e) fs)) =
     [ack_frame (sequence (head f)). f \<leftarrow> fs,
        start (head f) = MSG_STRAT_CODE \<and> message_type (head f) \<noteq> MSG_ACK]"
proof (induction fs)
  case Nil
  show ?case by (simp add: sent_def)
next
  case (Cons f fs)
  have "sent (concat (map (handle_decoded e) (f # fs))) =
          sent (handle_decoded e f) @ sent (concat (map (handle_decoded e) fs))"
    by (simp add: sent_def)
  then show ?case by (simp add: Cons.IH sent_handle_decoded)
qed

lemma pre_messages_frames:
  "pre_messages (concat (map (handle_decoded e) fs)) =
     [f \<leftarrow> fs. start (head f) = MSG_STRAT_CODE]"
proof (induction fs)
  case Nil
  show ?case by (simp add: pre_messages_def)
next
  case (Cons f fs)
  have "pre_messages (concat (map (handle_decoded e) (f # fs))) =
          pre_messages (handle_decoded e f) @ pre_messages (concat (map (handle_decoded e) fs))"
    by (simp add: pre_messages_def)
  then show ?case by (simp add: Cons.IH pre_messages_handle_decoded)
qed

lemma handled_frames:
  "handled (concat (map (handle_decoded e) fs)) =
     [(head f, Frame.message f). f \<leftarrow> fs,
        start (head f) = MSG_STRAT_CODE \<and> message_type (head f) = MSG_LINES]"
proof (induction fs)
  case Nil
  show ?case by (simp add: handled_def)
next
  case (Cons f fs)
  have "handled (concat (map (handle_decoded e) (f # fs))) =
          handled (handle_decoded e f) @ handled (concat (map (handle_decoded e) fs))"
    by (simp add: handled_def)
  then show ?case by (simp add: Cons.IH handled_handle_decoded)
qed

text \<open>
  Claim C7, for the hooks of \<open>FrameHandler\<close> itself. The events that a call of
  \<open>OnReceive\<close> produces are the events of the frames it decodes, in order, and
  \<open>processed\<close> ends as the sum of their lengths: every decoded frame is consumed,
  whatever its \<open>start\<close> field. What reaches the send callback is one ACK frame, for the
  sequence number of the frame and in network order, for each decoded frame whose
  \<open>start\<close> field is the magic and whose \<open>message_type\<close> is not ACK, and nothing
  else. The pre-message hook is called for the frames whose \<open>start\<close> field is the
  magic and for no other, the message handler for those of them of type LINES. Frame by
  frame: a decoded frame has a positive length, it makes the handler send if and only if
  its \<open>start\<close> field is the magic and its type is not ACK, and a frame with another
  \<open>start\<close> field adds no event at all.
\<close>

theorem OnReceive_frame:
  "fst (OnReceive e wbits packet len) =
     concat (map (handle_decoded e) (decoded_frames e wbits packet len 0))
   \<and> fst (snd (OnReceive e wbits packet len)) =
       sum_list (map Length (decoded_frames e wbits packet len 0))
   \<and> sent (fst (OnReceive e wbits packet len)) =
       [ack_frame (sequence (head f)). f \<leftarrow> decoded_frames e wbits packet len 0,
          start (head f) = MSG_STRAT_CODE \<and> message_type (head f) \<noteq> MSG_ACK]
   \<and> pre_messages (fst (OnReceive e wbits packet len)) =
       [f \<leftarrow> decoded_frames e wbits packet len 0. start (head f) = MSG_STRAT_CODE]
   \<and> handled (fst (OnReceive e wbits packet len)) =
       [(head f, Frame.message f). f \<leftarrow> decoded_frames e wbits packet len 0,
          start (head f) = MSG_STRAT_CODE \<and> message_type (head f) = MSG_LINES]
   \<and> (\<forall>f \<in> set (decoded_frames e wbits packet len 0).
        0 < Length f
        \<and> ((\<exists>bs. EvSend bs \<in> set (handle_decoded e f)) \<longleftrightarrow>
             start (head f) = MSG_STRAT_CODE \<and> message_type (head f) \<noteq> MSG_ACK)
        \<and> (\<forall>bs. EvSend bs \<in> set (handle_decoded e f) \<longrightarrow> bs = ack_frame (sequence (head f)))
        \<and> (start (head f) \<noteq> MSG_STRAT_CODE \<longrightarrow> handle_decoded e f = []))"
proof -
  have ev: "fst (OnReceive e wbits packet len) =
     concat (map (handle_decoded e) (decoded_frames e wbits packet len 0))"
    using OnReceive_loop_frames [of e wbits packet len 0 "[]"] by (simp add: OnReceive_def)
  have pr: "fst (snd (OnReceive e wbits packet len)) =
       sum_list (map Length (decoded_frames e wbits packet len 0))"
    using OnReceive_loop_frames [of e wbits packet len 0 "[]"] by (simp add: OnReceive_def)
  have s: "sent (fst (OnReceive e wbits packet len)) =
       [ack_frame (sequence (head f)). f \<leftarrow> decoded_frames e wbits packet len 0,
          start (head f) = MSG_STRAT_CODE \<and> message_type (head f) \<noteq> MSG_ACK]"
    unfolding ev by (rule sent_frames)
  have p: "pre_messages (fst (OnReceive e wbits packet len)) =
       [f \<leftarrow> decoded_frames e wbits packet len 0. start (head f) = MSG_STRAT_CODE]"
    unfolding ev by (rule pre_messages_frames)
  have h: "handled (fst (OnReceive e wbits packet len)) =
       [(head f, Frame.message f). f \<leftarrow> decoded_frames e wbits packet len 0,
          start (head f) = MSG_STRAT_CODE \<and> message_type (head f) = MSG_LINES]"
    unfolding ev by (rule handled_frames)
  have l: "0 < Length f" for f by (simp add: Length_def sizeof_Header_def)
  have n: "start (head f) \<noteq> MSG_STRAT_CODE \<longrightarrow> handle_decoded e f = []" for f
    by (simp add: handle_decoded_def)
  have q: "\<forall>f \<in> set (decoded_frames e wbits packet len 0).
        0 < Length f
        \<and> ((\<exists>bs. EvSend bs \<in> set (handle_decoded e f)) \<longleftrightarrow>
             start (head f) = MSG_STRAT_CODE \<and> message_type (head f) \<noteq> MSG_ACK)
        \<and> (\<forall>bs. EvSend bs \<in> set (handle_decoded e f) \<longrightarrow> bs = ack_frame (sequence (head f)))
        \<and> (start (head f) \<noteq> MSG_STRAT_CODE \<longrightarrow> handle_decoded e f = [])"
    using l n handle_decoded_sends handle_decoded_ack by blast
  from ev pr s p h q show ?thesis by (intro conjI)
qed

theorem OnReceive_frame_witness:
  "decoded_frames LittleEndian 64
     [0xDE, 0xAD, 0xBE, 0xEF, 0, 0, 0, 6, 0, 0, 0, 2, 0, 0, 0, 0,
      0x10, 0x77, 0xE1, 0x10, 0, 0, 0, 7, 0, 0, 0, 2, 0, 0, 0, 1, 0x41] 33 0 =
     [\<lparr> head = \<lparr> start = 0xDEADBEEF, sequence = 6, message_type = 2, message_length = 0 \<rparr>,
        Frame.message = [] \<rparr>,
      \<lparr> head = \<lparr> start = 0x1077E110, sequence = 7, message_type = 2, message_length = 1 \<rparr>,
        Frame.message = [0x41] \<rparr>]
   \<and> fst (OnReceive LittleEndian 64
     [0xDE, 0xAD, 0xBE, 0xEF, 0, 0, 0, 6, 0, 0, 0, 2, 0, 0, 0, 0,
      0x10, 0x77, 0xE1, 0x10, 0, 0, 0, 7, 0, 0, 0, 2, 0, 0, 0, 1, 0x41] 33) =
     [EvPreMessage
        \<lparr> head = \<lparr> start = 0x1077E110, sequence = 7, message_type = 2, message_length = 1 \<rparr>,
          Frame.message = [0x41] \<rparr>,
      EvSend [0x10, 0x77, 0xE1, 0x10, 0, 0, 0, 7, 0, 0, 0, 1, 0, 0, 0, 0],
      EvOnMessage \<lparr> start = 0x1077E110, sequence = 7, message_type = 2, message_length = 1 \<rparr>
        [0x41]]
   \<and> fst (snd (OnReceive LittleEndian 64
     [0xDE, 0xAD, 0xBE, 0xEF, 0, 0, 0, 6, 0, 0, 0, 2, 0, 0, 0, 0,
      0x10, 0x77, 0xE1, 0x10, 0, 0, 0, 7, 0, 0, 0, 2, 0, 0, 0, 1, 0x41] 33)) = 33
   \<and> sent (fst (OnReceive LittleEndian 64
     [0xDE, 0xAD, 0xBE, 0xEF, 0, 0, 0, 6, 0, 0, 0, 2, 0, 0, 0, 0,
      0x10, 0x77, 0xE1, 0x10, 0, 0, 0, 7, 0, 0, 0, 2, 0, 0, 0, 1, 0x41] 33)) =
     [[0x10, 0x77, 0xE1, 0x10, 0, 0, 0, 7, 0, 0, 0, 1, 0, 0, 0, 0]]"
proof -
  let ?pkt = "[0xDE, 0xAD, 0xBE, 0xEF, 0, 0, 0, 6, 0, 0, 0, 2, 0, 0, 0, 0,
      0x10, 0x77, 0xE1, 0x10, 0, 0, 0, 7, 0, 0, 0, 2, 0, 0, 0, 1, 0x41] :: byte list"
  let ?f1 = "\<lparr> head = \<lparr> start = 0xDEADBEEF, sequence = 6, message_type = 2, message_length = 0 \<rparr>,
        Frame.message = [] \<rparr>"
  let ?f2 = "\<lparr> head = \<lparr> start = 0x1077E110, sequence = 7, message_type = 2, message_length = 1 \<rparr>,
        Frame.message = [0x41] \<rparr>"
  have d1: "DecodeFrame LittleEndian 64 (drop (nat 0) ?pkt) (33 - 0) = Inr ?f1"
    by (simp add: DecodeFrame_def to_size_t_def sizeof_Header_def FromNetwork_def ntohl_def
        host_load_def bswap32_def be_bytes_def Let_def)
  have d2: "DecodeFrame LittleEndian 64 (drop (nat 16) ?pkt) (33 - 16) = Inr ?f2"
    by (simp add: DecodeFrame_def to_size_t_def sizeof_Header_def FromNetwork_def ntohl_def
        host_load_def bswap32_def be_bytes_def Let_def)
  have l1: "Length ?f1 = 16" and l2: "Length ?f2 = 17"
    by (simp_all add: Length_def sizeof_Header_def)
  have f3: "decoded_frames LittleEndian 64 ?pkt 33 33 = []"
    by (subst decoded_frames.simps) simp
  have f2: "decoded_frames LittleEndian 64 ?pkt 33 16 = [?f2]"
    by (subst decoded_frames.simps, simp only: d2) (simp add: l2 f3)
  have fr: "decoded_frames LittleEndian 64 ?pkt 33 0 = [?f1, ?f2]"
    by (subst decoded_frames.simps, simp only: d1) (simp add: l1 f2)
  have e1: "handle_decoded LittleEndian ?f1 = []"
    by (simp add: handle_decoded_def MSG_STRAT_CODE_def)
  have e2: "handle_decoded LittleEndian ?f2 =
        [EvPreMessage ?f2,
         EvSend [0x10, 0x77, 0xE1, 0x10, 0, 0, 0, 7, 0, 0, 0, 1, 0, 0, 0, 0],
         EvOnMessage \<lparr> start = 0x1077E110, sequence = 7, message_type = 2, message_length = 1 \<rparr>
           [0x41]]"
    by (simp add: handle_decoded_def OnPreMessage_def Ack_def Send_def DeepCopy_def
        header_bytes_def ToNetwork_def host_store_htonl MSG_STRAT_CODE_def MSG_ACK_def
        MSG_LINES_def be_bytes_def)
  have a: "ack_frame 7 = [0x10, 0x77, 0xE1, 0x10, 0, 0, 0, 7, 0, 0, 0, 1, 0, 0, 0, 0]"
    by (simp add: ack_frame_def MSG_STRAT_CODE_def MSG_ACK_def be_bytes_def)
  have m: "(0xDEADBEEF :: uint32_t) \<noteq> MSG_STRAT_CODE" "(2 :: uint32_t) \<noteq> MSG_ACK"
    by (simp_all add: MSG_STRAT_CODE_def MSG_ACK_def)
  note t = OnReceive_frame [of LittleEndian 64 ?pkt 33, unfolded fr]
  have 1: "fst (OnReceive LittleEndian 64 ?pkt 33) =
     [EvPreMessage ?f2,
      EvSend [0x10, 0x77, 0xE1, 0x10, 0, 0, 0, 7, 0, 0, 0, 1, 0, 0, 0, 0],
      EvOnMessage \<lparr> start = 0x1077E110, sequence = 7, message_type = 2, message_length = 1 \<rparr>
        [0x41]]"
    using t [THEN conjunct1] by (simp add: e1 e2)
  have 2: "fst (snd (OnReceive LittleEndian 64 ?pkt 33)) = 33"
    using t [THEN conjunct2, THEN conjunct1] by (simp add: l1 l2)
  have 3: "sent (fst (OnReceive LittleEndian 64 ?pkt 33)) =
     [[0x10, 0x77, 0xE1, 0x10, 0, 0, 0, 7, 0, 0, 0, 1, 0, 0, 0, 0]]"
    using t [THEN conjunct2, THEN conjunct2, THEN conjunct1] m by (simp add: a MSG_STRAT_CODE_def)
  from fr 1 2 3 show ?thesis by (intro conjI)
qed


section \<open>Properties of MemoryWriter\<close>

subsection \<open>Alignment and sums of machine words\<close>

lemma unat_four_small:
  assumes "\<not> 4 < (2::nat) ^ LENGTH('a::len)"
  shows "(4 :: 'a word) = 0"
proof -
  have "LENGTH('a) \<le> 2"
  proof (rule ccontr)
    assume "\<not> LENGTH('a) \<le> 2"
    then have "3 \<le> LENGTH('a)" by simp
    then have "(2::nat) ^ 3 \<le> 2 ^ LENGTH('a)" by (rule power_increasing) simp
    with assms show False by simp
  qed
  then have "(2::nat) ^ LENGTH('a) dvd 2 ^ 2" by (rule le_imp_power_dvd)
  moreover have "(2::nat) ^ 2 = 4" by simp
  ultimately have "(2::nat) ^ LENGTH('a) dvd 4" by metis
  then have "(of_nat 4 :: 'a word) = 0"
    by (simp only: word_of_nat_eq_0_iff)
  moreover have "(of_nat 4 :: 'a word) = 4" by simp
  ultimately show ?thesis by metis
qed

lemma misaligned_word:
  fixes target_address :: "'a::len word"
  assumes "unat target_address mod 4 \<noteq> 0"
  shows "target_address mod 4 \<noteq> 0"
proof (cases "4 < (2::nat) ^ LENGTH('a)")
  case True
  then have tb: "take_bit LENGTH('a) (4::nat) = 4" by (simp add: take_bit_nat_eq_self)
  have "unat (target_address mod 4) = unat target_address mod 4"
    by (simp add: unat_mod tb)
  with assms show ?thesis by (metis unat_eq_zero)
next
  case False
  then have "(4 :: 'a word) = 0" by (rule unat_four_small)
  moreover have "target_address \<noteq> 0" using assms by auto
  ultimately show ?thesis by (metis mod_by_0)
qed

lemma unat_sum_le:
  fixes a b :: "'a::len word"
  shows "unat (a + b) \<le> unat a + unat b"
  by (simp add: unat_word_ariths)

subsection \<open>Claim C3\<close>

text \<open>
  Claim C3, as the code has it. Once the writer is initialised (\<open>mem_fd\<close> is a
  descriptor and \<open>mapped_base\<close> is not null), \<open>writeMemory\<close> returns failure and
  makes no memory access for every target address that is not a multiple of 4, for every
  address below \<open>mapped_address\<close>, and for every address whose four bytes end, without
  wrapping the machine word, beyond \<open>mapped_address + mapped_size\<close>. Addresses and
  sizes are read as numbers (\<open>unat\<close>), so the sum \<open>mapped_address + mapped_size\<close> is
  the true one, whether or not it fits the word. The one address the statement leaves
  out is an aligned one at the top of the address space, where \<open>target_address + 4\<close>
  wraps.
\<close>

theorem writeMemory_rejects:
  fixes target_address :: "'a::len word" and mw :: "'a word MemoryWriter"
  assumes "mem_fd mw \<noteq> - 1" and "mapped_base mw \<noteq> 0"
    and "unat target_address mod 4 \<noteq> 0
         \<or> unat target_address < unat (mapped_address mw)
         \<or> (unat target_address + 4 < 2 ^ LENGTH('a)
            \<and> unat (mapped_address mw) + unat (mapped_size mw) < unat target_address + 4)"
  shows "writeMemory os mw target_address val = (False, [])"
proof -
  consider (a) "unat target_address mod 4 \<noteq> 0"
    | (b) "unat target_address < unat (mapped_address mw)"
    | (c) "unat target_address + 4 < 2 ^ LENGTH('a)"
          "unat (mapped_address mw) + unat (mapped_size mw) < unat target_address + 4"
    using assms(3) by blast
  then show ?thesis
  proof cases
    case a
    then have "target_address mod 4 \<noteq> 0" by (rule misaligned_word)
    then show ?thesis using assms(1,2) by (simp add: writeMemory_def)
  next
    case b
    then have "target_address < mapped_address mw" by (simp add: word_less_nat_alt)
    then show ?thesis using assms(1,2) by (simp add: writeMemory_def)
  next
    case c
    have "4 < (2::nat) ^ LENGTH('a)" using c(1) by linarith
    then have tb: "take_bit LENGTH('a) (4::nat) = 4" by (simp add: take_bit_nat_eq_self)
    have "unat target_address + unat (4 :: 'a word) < 2 ^ LENGTH('a)"
      using c(1) by (simp add: tb)
    then have "unat (target_address + 4) = unat target_address + unat (4 :: 'a word)"
      by (simp only: unat_add_lem)
    then have s1: "unat (target_address + 4) = unat target_address + 4"
      by (simp add: tb)
    have "unat (mapped_address mw + mapped_size mw) < unat (target_address + 4)"
      using unat_sum_le [of "mapped_address mw" "mapped_size mw"] c(2) s1 by linarith
    then have "target_address + 4 > mapped_address mw + mapped_size mw"
      by (simp add: word_less_nat_alt)
    then show ?thesis using assms(1,2) by (simp add: writeMemory_def)
  qed
qed

theorem writeMemory_rejects_witness:
  "writeMemory \<lparr> page_size = 4096, open_result = 3, mmap_result = 0x76F00000 \<rparr>
     \<lparr> mem_fd = 3, mapped_base = 0x76F00000, mapped_address = 0x43C00000,
       mapped_size = 0xC0000 \<rparr> (0x43C40002 :: 32 word) 1 = (False, [])
   \<and> writeMemory \<lparr> page_size = 4096, open_result = 3, mmap_result = 0x76F00000 \<rparr>
     \<lparr> mem_fd = 3, mapped_base = 0x76F00000, mapped_address = 0x43C00000,
       mapped_size = 0xC0000 \<rparr> (0xFFFFFFFD :: 32 word) 1 = (False, [])
   \<and> writeMemory \<lparr> page_size = 4096, open_result = 3, mmap_result = 0x76F00000 \<rparr>
     \<lparr> mem_fd = 3, mapped_base = 0x76F00000, mapped_address = 0x43C00000,
       mapped_size = 0xC0000 \<rparr> (0x43BFFFFC :: 32 word) 1 = (False, [])
   \<and> writeMemory \<lparr> page_size = 4096, open_result = 3, mmap_result = 0x76F00000 \<rparr>
     \<lparr> mem_fd = 3, mapped_base = 0x76F00000, mapped_address = 0x43C00000,
       mapped_size = 0xC0000 \<rparr> (0x43CC0000 :: 32 word) 1 = (False, [])
   \<and> writeMemory \<lparr> page_size = 4096, open_result = 3, mmap_result = 0x76F00000 \<rparr>
     \<lparr> mem_fd = 3, mapped_base = 0x76F00000, mapped_address = 0xFFFF0000,
       mapped_size = 0x20000 \<rparr> (0x20000 :: 32 word) 1 = (False, [])"
proof -
  let ?os = "\<lparr> page_size = 4096, open_result = 3, mmap_result = 0x76F00000 :: 32 word \<rparr>"
  let ?mw = "\<lparr> mem_fd = 3, mapped_base = 0x76F00000 :: 32 word, mapped_address = 0x43C00000,
       mapped_size = 0xC0000 \<rparr>"
  let ?mv = "\<lparr> mem_fd = 3, mapped_base = 0x76F00000 :: 32 word, mapped_address = 0xFFFF0000,
       mapped_size = 0x20000 \<rparr>"
  have 1: "writeMemory ?os ?mw 0x43C40002 1 = (False, [])"
    using writeMemory_rejects [of ?mw "0x43C40002" ?os 1] by simp
  have 2: "writeMemory ?os ?mw 0xFFFFFFFD 1 = (False, [])"
    using writeMemory_rejects [of ?mw "0xFFFFFFFD" ?os 1] by simp
  have 3: "writeMemory ?os ?mw 0x43BFFFFC 1 = (False, [])"
    using writeMemory_rejects [of ?mw "0x43BFFFFC" ?os 1] by simp
  have 4: "writeMemory ?os ?mw 0x43CC0000 1 = (False, [])"
    using writeMemory_rejects [of ?mw "0x43CC0000" ?os 1] by simp
  have 5: "writeMemory ?os ?mv 0x20000 1 = (False, [])"
    using writeMemory_rejects [of ?mv "0x20000" ?os 1] by simp
  from 1 2 3 4 5 show ?thesis by simp
qed

text \<open>
  Where \<open>target_address + 4\<close> wraps, the range check of an initialised writer compares
  the wrapped sum and lets the address through.
\<close>

lemma writeMemory_wrapped_address:
  "writeMemory \<lparr> page_size = 4096, open_result = 3, mmap_result = 0x76F00000 \<rparr>
     \<lparr> mem_fd = 3, mapped_base = 0x76F00000, mapped_address = 0x43C00000,
       mapped_size = 0xC0000 \<rparr> (0xFFFFFFFC :: 32 word) 1 = (True, [MemStore 0xFFFFFFFC 1])"
  by (simp add: writeMemory_def)

text \<open>
  Claim C3 as it is written fails on a writer that was never initialised: the address
  \<open>0x43C40002\<close> is not a multiple of 4 and lies outside the (empty) window, and
  \<open>writeMemory\<close> hands it to \<open>writeMemoryDirect\<close>, which maps the page and stores.
\<close>

theorem writeMemory_uninitialised_counterexample:
  "writeMemory \<lparr> page_size = 4096, open_result = 3, mmap_result = 0x76F00000 \<rparr>
     (MemoryWriter_new :: 32 word MemoryWriter) 0x43C40002 1 =
     (True, [MemStore 0x43C40002 1])"
  by (simp add: writeMemory_def writeMemoryDirect_def MemoryWriter_new_def MAP_FAILED_def Let_def)

section \<open>Properties of the command execution engine\<close>

subsection \<open>Queueing and draining\<close>

lemma pack_front_be: "pack_front [a, b, c, d] = be_word [a, b, c, d]"
  by (simp add: pack_front_def push_bit_or or.assoc)

lemma ff16: "(0xFF :: 16 word) = mask 8"
  by (simp add: mask_eq_exp_minus_1)

lemma value_bytes:
  "ucast (drop_bit 8 (read_value d off) AND 0xFF) = d ! off"
  "ucast (read_value d off AND 0xFF) = d ! (off + 1)"
  unfolding read_value_def ff16
  by (rule bit_word_eqI; auto simp: bit_simps dest: bit_imp_le_length)+

lemma short_queue: "length q < 4 \<Longrightarrow> leftover q = q \<and> packed_words q = []"
  by (induction q rule: leftover.induct) auto

lemma length_leftover: "length (leftover xs) < 4 \<and> length (leftover xs) = length xs mod 4"
  by (induction xs rule: leftover.induct) auto

lemma repack: "concat (map be_bytes (packed_words xs)) @ leftover xs = xs"
  by (induction xs rule: leftover.induct) (simp_all add: be_bytes_be_word del: be_word.simps)

lemma long_queue:
  "4 \<le> length (q :: byte list) \<Longrightarrow> \<exists>a b c d rest. q = a # b # c # d # rest"
  by (induction q rule: leftover.induct) auto

lemma drain_queue_spec:
  "drain_queue base k st =
     st\<lparr> byte_queues := (byte_queues st)(k := leftover (byte_queues st k)),
         hw := hw st @ map (HwWrite (base + 0x10)) (packed_words (byte_queues st k)) \<rparr>"
proof (induction base k st rule: drain_queue.induct)
  case (1 base k st)
  show ?case
  proof (cases "4 \<le> length (byte_queues st k)")
    case True
    then obtain a b c d rest where q: "byte_queues st k = a # b # c # d # rest"
      using long_queue by blast
    show ?thesis
      apply (subst drain_queue.simps)
      apply (simp only: True if_True)
      apply (subst "1.IH"[OF True])
      apply (simp add: q pack_front_be wr_writeMemory_def del: be_word.simps)
      done
  next
    case False
    then have "length (byte_queues st k) < 4" by simp
    from short_queue[OF this] False show ?thesis
      by (subst drain_queue.simps) simp
  qed
qed

lemma push_back_one:
  "push_back k b (st\<lparr> byte_queues := (byte_queues st)(k := q) \<rparr>) =
     st\<lparr> byte_queues := (byte_queues st)(k := q @ [b]) \<rparr>"
  by (simp add: push_back_def)

lemma push_back_first:
  "push_back k b st = st\<lparr> byte_queues := (byte_queues st)(k := byte_queues st k @ [b]) \<rparr>"
  by (simp add: push_back_def)

lemma push_back5:
  "push_back k e (push_back k d (push_back k c (push_back k b (push_back k a st)))) =
     st\<lparr> byte_queues := (byte_queues st)(k := byte_queues st k @ [a, b, c, d, e]) \<rparr>"
  by (simp only: push_back_first[of k a st] push_back_one append_assoc append.simps)

lemma consume_value_spec:
  "consume_value binary_data offset bus_id ucIcAddr reg_idx st =
     st\<lparr> byte_queues := (byte_queues st)(int (unat bus_id) :=
           leftover (byte_queues st (int (unat bus_id)) @
             [0x28, ucIcAddr, register_addrs ! reg_idx,
              binary_data ! offset, binary_data ! (offset + 1)])),
         hw := hw st @ map (HwWrite (base_address_of bus_id + 0x10))
           (packed_words (byte_queues st (int (unat bus_id)) @
             [0x28, ucIcAddr, register_addrs ! reg_idx,
              binary_data ! offset, binary_data ! (offset + 1)])) \<rparr>"
  unfolding consume_value_def Let_def value_bytes push_back5 drain_queue_spec
  by simp

subsection \<open>The cursor\<close>

lemma unat_byte_succ: "unat (x :: byte) < 255 \<Longrightarrow> unat (x + 1) = unat x + 1"
  using unat_add_lem [of x 1] by simp

lemma base_address_of_bus_base: "base_address_of b = bus_base (unat b)"
  by (simp add: base_address_of_def bus_base_def)

lemma bus_close_spec:
  "bus_close bus st =
     st\<lparr> hw := hw st @ close_sequence (unat bus),
         closes := closes st @ [(int (unat bus), byte_queues st (int (unat bus)))] \<rparr>"
  by (simp add: bus_close_def Let_def wr_writeMemory_def wr_readMemory_def close_sequence_def
      base_address_of_bus_base)

lemma bus_open_spec: "bus_open bus st = st\<lparr> hw := hw st @ open_sequence (unat bus) \<rparr>"
  by (simp add: bus_open_def wr_writeMemory_def open_sequence_def base_address_of_bus_base)

lemma advance_within_chip:
  "reg_idx < 3 \<Longrightarrow> advance bus ic reg_idx st = (False, bus, ic, reg_idx + 1, st)"
  by (simp add: advance_def)

lemma advance_next_chip:
  "unat ic < 31 \<Longrightarrow> advance bus ic 3 st = (False, bus, ic + 1, 0, st)"
  by (simp add: advance_def word_less_nat_alt unat_byte_succ)

lemma advance_next_bus:
  "unat ic = 31 \<Longrightarrow> unat bus < 7 \<Longrightarrow>
   advance bus ic 3 st = (False, bus + 1, 0, 0, bus_open (bus + 1) (bus_close bus st))"
  by (simp add: advance_def Let_def word_less_nat_alt unat_byte_succ)

lemma advance_last_bus:
  "unat ic = 31 \<Longrightarrow> unat bus = 7 \<Longrightarrow>
   advance bus ic 3 st = (True, bus + 1, 0, 0, bus_close bus st)"
  by (simp add: advance_def Let_def word_less_nat_alt unat_byte_succ)

text \<open>One lemma for all four ways through \<open>advance\<close>, for a cursor in its range.\<close>

lemma advance_step:
  assumes "cursor_ok bus ic ri"
  shows "\<exists>b' i' r'.
           advance bus ic ri st =
             (cursor_pos bus ic ri = 1023, b', i', r',
              if ri = 3 \<and> unat ic = 31
              then st\<lparr> hw := hw st @ bus_turn (unat bus),
                       closes := closes st @ [(int (unat bus), byte_queues st (int (unat bus)))] \<rparr>
              else st)
           \<and> r' = (ri + 1) mod 4
           \<and> unat b' = (if ri = 3 \<and> unat ic = 31 then unat bus + 1 else unat bus)
           \<and> (r' = 0 \<or> b' = bus)
           \<and> (cursor_pos bus ic ri < 1023 \<longrightarrow>
                cursor_ok b' i' r' \<and> cursor_pos b' i' r' = cursor_pos bus ic ri + 1)"
proof -
  from assms have b: "unat bus < 8" and i: "unat ic < 32" and r: "ri < 4"
    by (simp_all add: cursor_ok_def)
  consider (chip) "ri < 3" | (next_chip) "ri = 3" "unat ic < 31"
    | (next_bus) "ri = 3" "unat ic = 31" "unat bus < 7"
    | (last) "ri = 3" "unat ic = 31" "unat bus = 7"
    using b i r by linarith
  then show ?thesis
  proof cases
    case chip
    then show ?thesis using b i
      by (simp add: advance_within_chip cursor_ok_def cursor_pos_def)
  next
    case next_chip
    then show ?thesis using b
      by (simp add: advance_next_chip cursor_ok_def cursor_pos_def unat_byte_succ)
  next
    case next_bus
    then show ?thesis
      by (simp add: advance_next_bus cursor_ok_def cursor_pos_def unat_byte_succ
          bus_open_spec bus_close_spec bus_turn_def)
  next
    case last
    then show ?thesis
      by (simp add: advance_last_bus cursor_ok_def cursor_pos_def unat_byte_succ
          bus_close_spec bus_turn_def)
  qed
qed

lemma advance_queues:
  "advance bus ic ri st = (brk, b', i', r', st') \<Longrightarrow> byte_queues st' = byte_queues st"
  by (auto simp: advance_def Let_def bus_close_spec bus_open_spec split: if_splits)

subsection \<open>One iteration\<close>

lemma control_ops_fifo [simp]:
  "control_ops (map (HwWrite (bus_base b + 0x10)) ws) = []"
  by (induction ws) (simp_all add: control_ops_def bus_base_def)

lemma control_ops_append [simp]: "control_ops (xs @ ys) = control_ops xs @ control_ops ys"
  by (simp add: control_ops_def)

lemma control_ops_bus_turn [simp]: "control_ops (bus_turn b) = bus_turn b"
  by (simp add: control_ops_def bus_turn_def close_sequence_def open_sequence_def bus_base_def)

lemma address_fifo:
  "b < 8 \<Longrightarrow> \<forall>x \<in> set (map (HwWrite (bus_base b + 0x10)) ws). op_address x < bus_base 8"
  by (auto simp: bus_base_def)

lemma address_bus_turn:
  "b < 8 \<Longrightarrow> \<forall>x \<in> set (bus_turn b). op_address x < bus_base 8"
  by (auto simp: bus_turn_def close_sequence_def open_sequence_def bus_base_def)

text \<open>One iteration of the loop, for a cursor in its range and a value that is there.\<close>

lemma parse_loop_step:
  assumes "cursor_ok bus ic ri" and "offset + 1 < length data"
  shows "\<exists>b' i' r' ws turn cl q.
           parse_loop data offset bus ic ri st =
             (if cursor_pos bus ic ri = 1023
              then (Returned Result_001,
                    st\<lparr> byte_queues := (byte_queues st)(int (unat bus) := q),
                        hw := hw st @ map (HwWrite (bus_base (unat bus) + 0x10)) ws @ turn,
                        closes := closes st @ cl \<rparr>)
              else parse_loop data (offset + 2) b' i' r'
                    (st\<lparr> byte_queues := (byte_queues st)(int (unat bus) := q),
                        hw := hw st @ map (HwWrite (bus_base (unat bus) + 0x10)) ws @ turn,
                        closes := closes st @ cl \<rparr>))
           \<and> q = leftover (byte_queues st (int (unat bus)) @
                   [0x28, ic, register_addrs ! ri, data ! offset, data ! (offset + 1)])
           \<and> turn = (if ri = 3 \<and> unat ic = 31 then bus_turn (unat bus) else [])
           \<and> cl = (if ri = 3 \<and> unat ic = 31 then [(int (unat bus), q)] else [])
           \<and> r' = (ri + 1) mod 4
           \<and> unat b' = (if ri = 3 \<and> unat ic = 31 then unat bus + 1 else unat bus)
           \<and> (r' = 0 \<or> b' = bus)
           \<and> (cursor_pos bus ic ri < 1023 \<longrightarrow>
                cursor_ok b' i' r' \<and> cursor_pos b' i' r' = cursor_pos bus ic ri + 1)"
proof -
  let ?st1 = "consume_value data offset bus ic ri st"
  from advance_step [OF assms(1), of ?st1]
  obtain b' i' r' where all:
    "advance bus ic ri ?st1 =
             (cursor_pos bus ic ri = 1023, b', i', r',
              if ri = 3 \<and> unat ic = 31
              then ?st1\<lparr> hw := hw ?st1 @ bus_turn (unat bus),
                       closes := closes ?st1 @ [(int (unat bus), byte_queues ?st1 (int (unat bus)))] \<rparr>
              else ?st1)
     \<and> r' = (ri + 1) mod 4
     \<and> unat b' = (if ri = 3 \<and> unat ic = 31 then unat bus + 1 else unat bus)
     \<and> (r' = 0 \<or> b' = bus)
     \<and> (cursor_pos bus ic ri < 1023 \<longrightarrow>
                cursor_ok b' i' r' \<and> cursor_pos b' i' r' = cursor_pos bus ic ri + 1)"
    by (elim exE) (rule that)
  from all have adv: "advance bus ic ri ?st1 =
             (cursor_pos bus ic ri = 1023, b', i', r',
              if ri = 3 \<and> unat ic = 31
              then ?st1\<lparr> hw := hw ?st1 @ bus_turn (unat bus),
                       closes := closes ?st1 @ [(int (unat bus), byte_queues ?st1 (int (unat bus)))] \<rparr>
              else ?st1)"
    by (rule conjunct1)
  from all have rest: "r' = (ri + 1) mod 4"
      "unat b' = (if ri = 3 \<and> unat ic = 31 then unat bus + 1 else unat bus)"
      "r' = 0 \<or> b' = bus"
      "cursor_pos bus ic ri < 1023 \<longrightarrow>
                cursor_ok b' i' r' \<and> cursor_pos b' i' r' = cursor_pos bus ic ri + 1"
    by blast+
  have unfold: "parse_loop data offset bus ic ri st =
      (case advance bus ic ri ?st1 of
         (brk, bus_id', ucIcAddr', reg_idx', st') \<Rightarrow>
            if brk then (Returned Result_001, st')
            else parse_loop data (offset + 2) bus_id' ucIcAddr' reg_idx' st')"
    using assms(2) by (subst parse_loop.simps) simp
  show ?thesis
    apply (rule exI[of _ b'], rule exI[of _ i'], rule exI[of _ r'])
    apply (rule exI[of _ "packed_words (byte_queues st (int (unat bus)) @
                   [0x28, ic, register_addrs ! ri, data ! offset, data ! (offset + 1)])"])
    apply (rule exI[of _ "if ri = 3 \<and> unat ic = 31 then bus_turn (unat bus) else []"])
    apply (rule exI[of _ "if ri = 3 \<and> unat ic = 31 then [(int (unat bus), leftover (byte_queues st (int (unat bus)) @
                   [0x28, ic, register_addrs ! ri, data ! offset, data ! (offset + 1)]))] else []"])
    apply (rule exI[of _ "leftover (byte_queues st (int (unat bus)) @
                   [0x28, ic, register_addrs ! ri, data ! offset, data ! (offset + 1)])"])
    unfolding unfold adv
    using rest
    by (simp add: consume_value_spec base_address_of_bus_base)
qed

subsection \<open>Whole runs\<close>

lemma last_position:
  "cursor_ok bus ic ri \<Longrightarrow> cursor_pos bus ic ri = 1023 \<Longrightarrow> ri = 3 \<and> unat ic = 31 \<and> unat bus = 7"
  unfolding cursor_ok_def cursor_pos_def by arith

lemma control_ops_Nil [simp]: "control_ops [] = []"
  by (simp add: control_ops_def)

lemma full_run:
  assumes "cursor_ok bus ic ri" and "cursor_pos bus ic ri + n = 1023"
    and "length data = offset + 2 * (n + 1)"
  shows "\<exists>st' ops. parse_loop data offset bus ic ri st = (Returned Result_001, st')
           \<and> hw st' = hw st @ ops
           \<and> control_ops ops = concat (map bus_turn [unat bus..<8])
           \<and> (\<forall>x \<in> set ops. op_address x < bus_base 8)
           \<and> map fst (closes st') = map fst (closes st) @ map int [unat bus..<8]"
  using assms
proof (induction n arbitrary: offset bus ic ri st)
  case 0
  then have pos: "cursor_pos bus ic ri = 1023" and inr: "offset + 1 < length data" by simp_all
  from last_position [OF "0.prems"(1) pos]
  have last: "ri = 3" "unat ic = 31" "unat bus = 7" by simp_all
  from parse_loop_step [OF "0.prems"(1) inr, of st] pos last
  obtain ws q where
    "parse_loop data offset bus ic ri st =
       (Returned Result_001,
        st\<lparr> byte_queues := (byte_queues st)(int (unat bus) := q),
            hw := hw st @ map (HwWrite (bus_base (unat bus) + 0x10)) ws @ bus_turn 7,
            closes := closes st @ [(int (unat bus), q)] \<rparr>)"
    by auto
  then show ?case using last address_fifo [of 7 ws] address_bus_turn [of 7]
    by (auto simp: upt_conv_Cons)
next
  case (Suc n)
  then have pos: "cursor_pos bus ic ri < 1023" "cursor_pos bus ic ri \<noteq> 1023"
    and inr: "offset + 1 < length data" by simp_all
  have bus: "unat bus < 8" using Suc.prems(1) by (simp add: cursor_ok_def)
  from parse_loop_step [OF Suc.prems(1) inr, of st] pos
  obtain b' i' r' ws turn cl q where
    run: "parse_loop data offset bus ic ri st =
            parse_loop data (offset + 2) b' i' r'
              (st\<lparr> byte_queues := (byte_queues st)(int (unat bus) := q),
                  hw := hw st @ map (HwWrite (bus_base (unat bus) + 0x10)) ws @ turn,
                  closes := closes st @ cl \<rparr>)"
    and turn: "turn = (if ri = 3 \<and> unat ic = 31 then bus_turn (unat bus) else [])"
    and cl: "cl = (if ri = 3 \<and> unat ic = 31 then [(int (unat bus), q)] else [])"
    and b': "unat b' = (if ri = 3 \<and> unat ic = 31 then unat bus + 1 else unat bus)"
    and ok': "cursor_ok b' i' r'" and pos': "cursor_pos b' i' r' = cursor_pos bus ic ri + 1"
    by auto
  let ?st2 = "st\<lparr> byte_queues := (byte_queues st)(int (unat bus) := q),
                  hw := hw st @ map (HwWrite (bus_base (unat bus) + 0x10)) ws @ turn,
                  closes := closes st @ cl \<rparr>"
  have "cursor_pos b' i' r' + n = 1023" using pos' Suc.prems(2) by simp
  moreover have "length data = (offset + 2) + 2 * (n + 1)" using Suc.prems(3) by simp
  ultimately obtain st' ops where
    ih: "parse_loop data (offset + 2) b' i' r' ?st2 = (Returned Result_001, st')"
      "hw st' = hw ?st2 @ ops"
      "control_ops ops = concat (map bus_turn [unat b'..<8])"
      "\<forall>x \<in> set ops. op_address x < bus_base 8"
      "map fst (closes st') = map fst (closes ?st2) @ map int [unat b'..<8]"
    using Suc.IH [OF ok', of "offset + 2" ?st2] by blast
  have turn_addr: "\<forall>x \<in> set turn. op_address x < bus_base 8"
    using address_bus_turn [OF bus] by (simp add: turn)
  have expected: "control_ops turn @ concat (map bus_turn [unat b'..<8]) =
                  concat (map bus_turn [unat bus..<8])"
    using bus by (simp add: turn b' upt_conv_Cons)
  have closed: "map fst cl @ map int [unat b'..<8] = map int [unat bus..<8]"
    using bus by (simp add: cl b' upt_conv_Cons)
  show ?case
    apply (rule exI [of _ st'])
    apply (rule exI [of _ "map (HwWrite (bus_base (unat bus) + 0x10)) ws @ turn @ ops"])
    using ih run turn_addr address_fifo [OF bus, of ws] expected closed
    by (auto simp: ball_Un)
qed

lemma length_leftover_command:
  "length (leftover (q @ [a, b, c, d, e])) = (length q + 1) mod 4"
  by (simp add: length_leftover) presburger

lemma closes_empty:
  assumes "cursor_ok bus ic ri"
    and "length (byte_queues st (int (unat bus))) = ri"
    and "\<forall>k. int (unat bus) < k \<longrightarrow> byte_queues st k = []"
    and "\<forall>c \<in> set (closes st). snd c = []"
  shows "\<forall>c \<in> set (closes (snd (parse_loop data offset bus ic ri st))). snd c = []"
  using assms
proof (induction "length data - offset" arbitrary: offset bus ic ri st rule: less_induct)
  case less
  show ?case
  proof (cases "offset + 1 < length data")
    case False
    then have "snd (parse_loop data offset bus ic ri st) = st"
      by (subst parse_loop.simps) simp
    then show ?thesis using less.prems(4) by simp
  next
    case inr: True
    from parse_loop_step [OF less.prems(1) inr, of st]
    obtain b' i' r' ws turn cl q where
      run: "parse_loop data offset bus ic ri st =
             (if cursor_pos bus ic ri = 1023
              then (Returned Result_001,
                    st\<lparr> byte_queues := (byte_queues st)(int (unat bus) := q),
                        hw := hw st @ map (HwWrite (bus_base (unat bus) + 0x10)) ws @ turn,
                        closes := closes st @ cl \<rparr>)
              else parse_loop data (offset + 2) b' i' r'
                    (st\<lparr> byte_queues := (byte_queues st)(int (unat bus) := q),
                        hw := hw st @ map (HwWrite (bus_base (unat bus) + 0x10)) ws @ turn,
                        closes := closes st @ cl \<rparr>))"
      and q: "q = leftover (byte_queues st (int (unat bus)) @
                   [0x28, ic, register_addrs ! ri, data ! offset, data ! (offset + 1)])"
      and cl: "cl = (if ri = 3 \<and> unat ic = 31 then [(int (unat bus), q)] else [])"
      and r': "r' = (ri + 1) mod 4"
      and b': "unat b' = (if ri = 3 \<and> unat ic = 31 then unat bus + 1 else unat bus)"
      and same: "r' = 0 \<or> b' = bus"
      and ok': "cursor_pos bus ic ri < 1023 \<longrightarrow>
                cursor_ok b' i' r' \<and> cursor_pos b' i' r' = cursor_pos bus ic ri + 1"
      by (elim exE conjE) (rule that; assumption)
    let ?st2 = "st\<lparr> byte_queues := (byte_queues st)(int (unat bus) := q),
                  hw := hw st @ map (HwWrite (bus_base (unat bus) + 0x10)) ws @ turn,
                  closes := closes st @ cl \<rparr>"
    have lq: "length q = r'"
      using less.prems(2) by (simp add: q r' length_leftover_command)
    have cl_empty: "\<forall>c \<in> set cl. snd c = []"
      using lq by (auto simp: cl r')
    have closes2: "\<forall>c \<in> set (closes ?st2). snd c = []"
      using less.prems(4) cl_empty by auto
    show ?thesis
    proof (cases "cursor_pos bus ic ri = 1023")
      case True
      then show ?thesis using closes2 by (simp add: run)
    next
      case False
      have "cursor_pos bus ic ri < 1024"
        using less.prems(1) unfolding cursor_ok_def cursor_pos_def by arith
      with False have "cursor_pos bus ic ri < 1023" by simp
      with ok' have ok2: "cursor_ok b' i' r'" by simp
      have q2: "length (byte_queues ?st2 (int (unat b'))) = r'"
      proof (cases "b' = bus")
        case True
        then show ?thesis using lq by simp
      next
        case False
        with same have "r' = 0" by simp
        moreover from False b' have "unat b' = unat bus + 1"
          by (simp add: word_unat_eq_iff split: if_splits)
        ultimately show ?thesis using less.prems(3) by simp
      qed
      have later: "\<forall>k. int (unat b') < k \<longrightarrow> byte_queues ?st2 k = []"
        using less.prems(3) b' by (auto split: if_splits)
      have "length data - (offset + 2) < length data - offset" using inr by simp
      from less.hyps [OF this ok2 q2 later closes2]
      show ?thesis using False by (simp add: run)
    qed
  qed
qed

lemma queues_small:
  assumes "cursor_ok bus ic ri" and "\<forall>k. length (byte_queues st k) < 4"
  shows "\<forall>k. length (byte_queues (snd (parse_loop data offset bus ic ri st)) k) < 4"
  using assms
proof (induction "length data - offset" arbitrary: offset bus ic ri st rule: less_induct)
  case less
  show ?case
  proof (cases "offset + 1 < length data")
    case False
    then have "snd (parse_loop data offset bus ic ri st) = st"
      by (subst parse_loop.simps) simp
    then show ?thesis using less.prems(2) by simp
  next
    case inr: True
    from parse_loop_step [OF less.prems(1) inr, of st]
    obtain b' i' r' ws turn cl q where
      run: "parse_loop data offset bus ic ri st =
             (if cursor_pos bus ic ri = 1023
              then (Returned Result_001,
                    st\<lparr> byte_queues := (byte_queues st)(int (unat bus) := q),
                        hw := hw st @ map (HwWrite (bus_base (unat bus) + 0x10)) ws @ turn,
                        closes := closes st @ cl \<rparr>)
              else parse_loop data (offset + 2) b' i' r'
                    (st\<lparr> byte_queues := (byte_queues st)(int (unat bus) := q),
                        hw := hw st @ map (HwWrite (bus_base (unat bus) + 0x10)) ws @ turn,
                        closes := closes st @ cl \<rparr>))"
      and q: "q = leftover (byte_queues st (int (unat bus)) @
                   [0x28, ic, register_addrs ! ri, data ! offset, data ! (offset + 1)])"
      and ok': "cursor_pos bus ic ri < 1023 \<longrightarrow>
                cursor_ok b' i' r' \<and> cursor_pos b' i' r' = cursor_pos bus ic ri + 1"
      by (elim exE conjE) (rule that; assumption)
    let ?st2 = "st\<lparr> byte_queues := (byte_queues st)(int (unat bus) := q),
                  hw := hw st @ map (HwWrite (bus_base (unat bus) + 0x10)) ws @ turn,
                  closes := closes st @ cl \<rparr>"
    have small2: "\<forall>k. length (byte_queues ?st2 k) < 4"
      using less.prems(2) by (simp add: q length_leftover)
    show ?thesis
    proof (cases "cursor_pos bus ic ri = 1023")
      case True
      then show ?thesis using small2 by (simp add: run)
    next
      case False
      have "cursor_pos bus ic ri < 1024"
        using less.prems(1) unfolding cursor_ok_def cursor_pos_def by arith
      with False have "cursor_pos bus ic ri < 1023" by simp
      with ok' have ok2: "cursor_ok b' i' r'" by simp
      have "length data - (offset + 2) < length data - offset" using inr by simp
      from less.hyps [OF this ok2 small2]
      show ?thesis using False by (simp add: run)
    qed
  qed
qed

lemma position_bus:
  "cursor_ok bus ic ri \<Longrightarrow> cursor_pos bus ic ri div 128 = unat bus"
  proof -
  assume "cursor_ok bus ic ri"
  then have "unat ic * 4 + ri < 128" unfolding cursor_ok_def by arith
  then have "(unat ic * 4 + ri) div 128 = 0" by simp
  then show ?thesis
    unfolding cursor_pos_def
    by (metis add.assoc add.right_neutral div_mult_self3 zero_neq_numeral)
qed

text \<open>A run whose input ends one byte after \<open>m\<close> more values.\<close>

lemma short_run:
  assumes "cursor_ok bus ic ri" and "cursor_pos bus ic ri + m \<le> 1023"
    and "length data = offset + 2 * m + 1"
  shows "fst (parse_loop data offset bus ic ri st) = Undefined
         \<and> map fst (closes (snd (parse_loop data offset bus ic ri st))) =
             map fst (closes st) @ map int [unat bus..<(cursor_pos bus ic ri + m) div 128]"
  using assms
proof (induction m arbitrary: offset bus ic ri st)
  case 0
  have "parse_loop data offset bus ic ri st = (Undefined, st)"
    using "0.prems"(3) by (subst parse_loop.simps) simp
  then show ?case using position_bus [OF "0.prems"(1)] by simp
next
  case (Suc m)
  then have pos: "cursor_pos bus ic ri < 1023" "cursor_pos bus ic ri \<noteq> 1023"
    and inr: "offset + 1 < length data" by simp_all
  from parse_loop_step [OF Suc.prems(1) inr, of st] pos
  obtain b' i' r' ws turn cl q where
    run: "parse_loop data offset bus ic ri st =
            parse_loop data (offset + 2) b' i' r'
              (st\<lparr> byte_queues := (byte_queues st)(int (unat bus) := q),
                  hw := hw st @ map (HwWrite (bus_base (unat bus) + 0x10)) ws @ turn,
                  closes := closes st @ cl \<rparr>)"
    and cl: "cl = (if ri = 3 \<and> unat ic = 31 then [(int (unat bus), q)] else [])"
    and b': "unat b' = (if ri = 3 \<and> unat ic = 31 then unat bus + 1 else unat bus)"
    and ok': "cursor_ok b' i' r'" and pos': "cursor_pos b' i' r' = cursor_pos bus ic ri + 1"
    by auto
  let ?st2 = "st\<lparr> byte_queues := (byte_queues st)(int (unat bus) := q),
                  hw := hw st @ map (HwWrite (bus_base (unat bus) + 0x10)) ws @ turn,
                  closes := closes st @ cl \<rparr>"
  let ?X = "(cursor_pos bus ic ri + Suc m) div 128"
  have "cursor_pos b' i' r' + m \<le> 1023" using pos' Suc.prems(2) by simp
  moreover have "length data = (offset + 2) + 2 * m + 1" using Suc.prems(3) by simp
  ultimately have
    ih: "fst (parse_loop data (offset + 2) b' i' r' ?st2) = Undefined"
      "map fst (closes (snd (parse_loop data (offset + 2) b' i' r' ?st2))) =
         map fst (closes ?st2) @ map int [unat b'..<(cursor_pos b' i' r' + m) div 128]"
    using Suc.IH [OF ok', of "offset + 2" ?st2] by blast+
  have X: "(cursor_pos b' i' r' + m) div 128 = ?X" by (simp add: pos')
  have "unat b' \<le> ?X"
  proof -
    have "cursor_pos b' i' r' div 128 \<le> (cursor_pos b' i' r' + m) div 128"
      by (rule div_le_mono) simp
    then show ?thesis using position_bus [OF ok'] X by simp
  qed
  have closed: "map fst cl @ map int [unat b'..<?X] = map int [unat bus..<?X]"
  proof (cases "ri = 3 \<and> unat ic = 31")
    case True
    then have "unat bus < ?X" using \<open>unat b' \<le> ?X\<close> b' by simp
    then have "[unat bus..<?X] = unat bus # [unat bus + 1..<?X]"
      by (simp add: upt_conv_Cons)
    then show ?thesis using True by (simp add: cl b')
  next
    case False
    then show ?thesis by (auto simp: cl b')
  qed
  show ?case
    using ih closed by (simp add: run X)
qed



subsection \<open>The commands of a run\<close>

















subsection \<open>The queue at a close\<close>

lemma closes_grow:
  assumes "cursor_ok bus ic ri"
  shows "\<exists>cs. closes (snd (parse_loop data offset bus ic ri st)) = closes st @ cs"
  using assms
proof (induction "length data - offset" arbitrary: offset bus ic ri st rule: less_induct)
  case less
  show ?case
  proof (cases "offset + 1 < length data")
    case False
    then have "snd (parse_loop data offset bus ic ri st) = st"
      by (subst parse_loop.simps) simp
    then show ?thesis by simp
  next
    case inr: True
    from parse_loop_step [OF less.prems(1) inr, of st]
    obtain b' i' r' ws turn cl q where
      run: "parse_loop data offset bus ic ri st =
             (if cursor_pos bus ic ri = 1023
              then (Returned Result_001,
                    st\<lparr> byte_queues := (byte_queues st)(int (unat bus) := q),
                        hw := hw st @ map (HwWrite (bus_base (unat bus) + 0x10)) ws @ turn,
                        closes := closes st @ cl \<rparr>)
              else parse_loop data (offset + 2) b' i' r'
                    (st\<lparr> byte_queues := (byte_queues st)(int (unat bus) := q),
                        hw := hw st @ map (HwWrite (bus_base (unat bus) + 0x10)) ws @ turn,
                        closes := closes st @ cl \<rparr>))"
      and ok': "cursor_pos bus ic ri < 1023 \<longrightarrow>
                cursor_ok b' i' r' \<and> cursor_pos b' i' r' = cursor_pos bus ic ri + 1"
      by (elim exE conjE) (rule that; assumption)
    let ?st2 = "st\<lparr> byte_queues := (byte_queues st)(int (unat bus) := q),
                  hw := hw st @ map (HwWrite (bus_base (unat bus) + 0x10)) ws @ turn,
                  closes := closes st @ cl \<rparr>"
    show ?thesis
    proof (cases "cursor_pos bus ic ri = 1023")
      case True
      then show ?thesis by (simp add: run)
    next
      case False
      have "cursor_pos bus ic ri < 1024"
        using less.prems(1) unfolding cursor_ok_def cursor_pos_def by arith
      with False have "cursor_pos bus ic ri < 1023" by simp
      with ok' have ok2: "cursor_ok b' i' r'" by simp
      have "length data - (offset + 2) < length data - offset" using inr by simp
      from less.hyps [OF this ok2, of ?st2]
      obtain cs where "closes (snd (parse_loop data (offset + 2) b' i' r' ?st2)) =
                       closes ?st2 @ cs" by blast
      then show ?thesis using False by (simp add: run)
    qed
  qed
qed

text \<open>
  The queue of the current bus when its close sequence begins: as long as the bytes
  queued before the run began, modulo 4.
\<close>

lemma close_length:
  assumes "cursor_ok bus ic ri"
    and "length (byte_queues st (int (unat bus))) = (c + ri) mod 4"
    and "cursor_pos bus ic ri + n = unat bus * 128 + 127"
    and "offset + 2 * (n + 1) \<le> length data"
  shows "\<exists>q cs. closes (snd (parse_loop data offset bus ic ri st)) =
                   closes st @ (int (unat bus), q) # cs \<and> length q = c mod 4"
  using assms
proof (induction n arbitrary: offset ic ri st)
  case 0
  then have inr: "offset + 1 < length data" by simp
  have last: "ri = 3 \<and> unat ic = 31"
    using "0.prems"(1,3) unfolding cursor_ok_def cursor_pos_def by arith
  from parse_loop_step [OF "0.prems"(1) inr, of st]
  obtain b' i' r' ws turn cl q where
    run: "parse_loop data offset bus ic ri st =
             (if cursor_pos bus ic ri = 1023
              then (Returned Result_001,
                    st\<lparr> byte_queues := (byte_queues st)(int (unat bus) := q),
                        hw := hw st @ map (HwWrite (bus_base (unat bus) + 0x10)) ws @ turn,
                        closes := closes st @ cl \<rparr>)
              else parse_loop data (offset + 2) b' i' r'
                    (st\<lparr> byte_queues := (byte_queues st)(int (unat bus) := q),
                        hw := hw st @ map (HwWrite (bus_base (unat bus) + 0x10)) ws @ turn,
                        closes := closes st @ cl \<rparr>))"
    and q: "q = leftover (byte_queues st (int (unat bus)) @
                   [0x28, ic, register_addrs ! ri, data ! offset, data ! (offset + 1)])"
    and cl: "cl = (if ri = 3 \<and> unat ic = 31 then [(int (unat bus), q)] else [])"
    and ok': "cursor_pos bus ic ri < 1023 \<longrightarrow>
                cursor_ok b' i' r' \<and> cursor_pos b' i' r' = cursor_pos bus ic ri + 1"
    by (elim exE conjE) (rule that; assumption)
  let ?st2 = "st\<lparr> byte_queues := (byte_queues st)(int (unat bus) := q),
                  hw := hw st @ map (HwWrite (bus_base (unat bus) + 0x10)) ws @ turn,
                  closes := closes st @ cl \<rparr>"
  have "length q = ((c + 3) mod 4 + 1) mod 4"
    using "0.prems"(2) last by (simp add: q length_leftover_command)
  also have "\<dots> = c mod 4" by presburger
  finally have lq: "length q = c mod 4" .
  have cl': "cl = [(int (unat bus), q)]" using last by (simp add: cl)
  show ?case
  proof (cases "cursor_pos bus ic ri = 1023")
    case True
    then show ?thesis using lq by (simp add: run cl')
  next
    case False
    have "cursor_pos bus ic ri < 1024"
      using "0.prems"(1) unfolding cursor_ok_def cursor_pos_def by arith
    with False ok' have "cursor_ok b' i' r'" by simp
    from closes_grow [OF this, of data "offset + 2" ?st2]
    obtain cs where "closes (snd (parse_loop data (offset + 2) b' i' r' ?st2)) =
                     closes ?st2 @ cs" by blast
    then show ?thesis using False lq by (simp add: run cl')
  qed
next
  case (Suc n)
  then have inr: "offset + 1 < length data" by simp
  have bus: "unat bus < 8" using Suc.prems(1) by (simp add: cursor_ok_def)
  have noclose: "\<not> (ri = 3 \<and> unat ic = 31)"
    using Suc.prems(3) unfolding cursor_pos_def by auto
  have pos: "cursor_pos bus ic ri < 1023" "cursor_pos bus ic ri \<noteq> 1023"
    using Suc.prems(3) bus by simp_all
  from parse_loop_step [OF Suc.prems(1) inr, of st]
  obtain b' i' r' ws turn cl q where
    run: "parse_loop data offset bus ic ri st =
             (if cursor_pos bus ic ri = 1023
              then (Returned Result_001,
                    st\<lparr> byte_queues := (byte_queues st)(int (unat bus) := q),
                        hw := hw st @ map (HwWrite (bus_base (unat bus) + 0x10)) ws @ turn,
                        closes := closes st @ cl \<rparr>)
              else parse_loop data (offset + 2) b' i' r'
                    (st\<lparr> byte_queues := (byte_queues st)(int (unat bus) := q),
                        hw := hw st @ map (HwWrite (bus_base (unat bus) + 0x10)) ws @ turn,
                        closes := closes st @ cl \<rparr>))"
    and q: "q = leftover (byte_queues st (int (unat bus)) @
                   [0x28, ic, register_addrs ! ri, data ! offset, data ! (offset + 1)])"
    and cl: "cl = (if ri = 3 \<and> unat ic = 31 then [(int (unat bus), q)] else [])"
    and r': "r' = (ri + 1) mod 4"
    and b': "unat b' = (if ri = 3 \<and> unat ic = 31 then unat bus + 1 else unat bus)"
    and ok': "cursor_pos bus ic ri < 1023 \<longrightarrow>
                cursor_ok b' i' r' \<and> cursor_pos b' i' r' = cursor_pos bus ic ri + 1"
    by (elim exE conjE) (rule that; assumption)
  let ?st2 = "st\<lparr> byte_queues := (byte_queues st)(int (unat bus) := q),
                  hw := hw st @ map (HwWrite (bus_base (unat bus) + 0x10)) ws @ turn,
                  closes := closes st @ cl \<rparr>"
  have same: "b' = bus" using b' noclose by (simp add: word_unat_eq_iff)
  have cl': "cl = []" using noclose by (simp add: cl)
  from ok' pos have ok2: "cursor_ok bus i' r'"
    and pos2: "cursor_pos bus i' r' + n = unat bus * 128 + 127"
    using Suc.prems(3) by (simp_all add: same)
  have "length q = ((c + ri) mod 4 + 1) mod 4"
    using Suc.prems(2) by (simp add: q length_leftover_command)
  also have "\<dots> = (c + r') mod 4" unfolding r' by presburger
  finally have q2: "length (byte_queues ?st2 (int (unat bus))) = (c + r') mod 4" by simp
  have "offset + 2 + 2 * (n + 1) \<le> length data" using Suc.prems(4) by simp
  from Suc.IH [OF ok2 q2 pos2 this]
  show ?case using pos by (simp add: run same cl')
qed

lemma first_run:
  "parse_binary_commands [0, 0, 0, 0xAB, 0xCD] engine_init =
     (Returned Result_001,
      \<lparr> byte_queues = (\<lambda>k. [])(0 := [0xCD]), hw = [HwWrite 0x43C40010 0x280027AB], closes = [] \<rparr>)"
  by (simp add: parse_binary_commands_def parse_loop.simps consume_value_spec advance_def
      engine_init_def register_addrs_def base_address_of_def)

lemma closes_all_empty:
  "map fst cs = xs \<Longrightarrow> \<forall>c \<in> set cs. snd c = [] \<Longrightarrow> cs = map (\<lambda>x. (x, [])) xs"
  by (induction cs arbitrary: xs) auto

lemma cursor_ok_start: "cursor_ok 0 0 0" and cursor_pos_start: "cursor_pos 0 0 0 = 0"
  by (simp_all add: cursor_ok_def cursor_pos_def)

subsection \<open>Tokens and results\<close>

lemma skip_delims_le: "pos \<le> length raw \<Longrightarrow> skip_delims raw pos \<le> length raw"
  by (induction raw pos rule: skip_delims.induct) (subst skip_delims.simps, auto)

lemma split_skip:
  "pos \<le> length raw \<Longrightarrow>
   split_acc [] (drop (skip_delims raw pos) raw) = split_acc [] (drop pos raw)"
proof (induction raw pos rule: skip_delims.induct)
  case (1 raw pos)
  show ?case
  proof (cases "pos < length raw \<and> is_delim (raw ! pos)")
    case True
    then have "drop pos raw = raw ! pos # drop (pos + 1) raw"
      by (simp add: Cons_nth_drop_Suc)
    then have "split_acc [] (drop pos raw) = split_acc [] (drop (pos + 1) raw)"
      using True by simp
    moreover have "skip_delims raw pos = skip_delims raw (pos + 1)"
      using True by (subst skip_delims.simps) simp
    ultimately show ?thesis using "1.IH" [OF True] True by simp
  next
    case False
    then have "skip_delims raw pos = pos" by (subst skip_delims.simps) auto
    then show ?thesis by simp
  qed
qed

lemma tokenize_loop_split:
  assumes "start0 \<le> pos" and "pos \<le> length raw"
  shows "(case tokenize_loop raw start0 pos tokens of
            (s, ts) \<Rightarrow> if s < length raw then ts @ [drop s raw] else ts) =
         tokens @ split_acc (take (pos - start0) (drop start0 raw)) (drop pos raw)"
  using assms
proof (induction raw start0 pos tokens rule: tokenize_loop.induct)
  case (1 raw start0 pos tokens)
  let ?cur = "take (pos - start0) (drop start0 raw)"
  show ?case
  proof (cases "pos < length raw")
    case False
    with "1.prems" have "pos = length raw" by simp
    then show ?thesis
      by (subst tokenize_loop.simps) auto
  next
    case inr: True
    then have dr: "drop pos raw = raw ! pos # drop (pos + 1) raw"
      by (simp add: Cons_nth_drop_Suc)
    show ?thesis
    proof (cases "is_delim (raw ! pos)")
      case True
      let ?p = "skip_delims raw pos"
      have cur: "?cur = [] \<longleftrightarrow> \<not> start0 < pos"
        using "1.prems" inr by auto
      have "(case tokenize_loop raw ?p ?p
                 (if start0 < pos then tokens @ [?cur] else tokens) of
               (s, ts) \<Rightarrow> if s < length raw then ts @ [drop s raw] else ts) =
            (if start0 < pos then tokens @ [?cur] else tokens) @
              split_acc (take (?p - ?p) (drop ?p raw)) (drop ?p raw)"
        using "1.IH"(1) [OF inr True] skip_delims_le [of pos raw] inr by simp
      also have "\<dots> = (if start0 < pos then tokens @ [?cur] else tokens) @
              split_acc [] (drop pos raw)"
        using split_skip [of pos raw] inr by simp
      also have "\<dots> = tokens @ split_acc ?cur (drop pos raw)"
        using True cur by (simp add: dr)
      finally show ?thesis
        using inr True by (subst tokenize_loop.simps) simp
    next
      case False
      have "take (pos + 1 - start0) (drop start0 raw) = ?cur @ [raw ! pos]"
      proof -
        have "pos + 1 - start0 = Suc (pos - start0)" using "1.prems" by simp
        moreover have "pos - start0 < length (drop start0 raw)" using "1.prems" inr by simp
        moreover have "drop start0 raw ! (pos - start0) = raw ! pos" using "1.prems" inr by simp
        ultimately show ?thesis by (simp add: take_Suc_conv_app_nth)
      qed
      then have "tokens @ split_acc (take (pos + 1 - start0) (drop start0 raw)) (drop (pos + 1) raw)
                 = tokens @ split_acc ?cur (drop pos raw)"
        using False by (simp add: dr)
      moreover have "(case tokenize_loop raw start0 (pos + 1) tokens of
               (s, ts) \<Rightarrow> if s < length raw then ts @ [drop s raw] else ts) =
             tokens @ split_acc (take (pos + 1 - start0) (drop start0 raw)) (drop (pos + 1) raw)"
        using "1.IH"(2) [OF inr False] "1.prems" inr by simp
      ultimately show ?thesis
        using inr False by (subst tokenize_loop.simps) simp
    qed
  qed
qed

lemma tokenize_split_tokens: "tokenize raw = split_tokens raw"
  using tokenize_loop_split [of 0 0 raw "[]"]
  by (simp add: tokenize_def split_tokens_def)

lemma parse_loop_result:
  "parse_loop data offset bus ic ri st = (Returned r, st') \<Longrightarrow> r = Result_001"
proof (induction "length data - offset" arbitrary: offset bus ic ri st rule: less_induct)
  case less
  show ?case
  proof (cases "offset + 1 < length data")
    case False
    with less.prems show ?thesis
      by (subst (asm) parse_loop.simps) (auto split: if_splits)
  next
    case True
    obtain brk b' i' r' st2 where
      adv: "advance bus ic ri (consume_value data offset bus ic ri st) = (brk, b', i', r', st2)"
      by (metis prod_cases5)
    have run: "parse_loop data offset bus ic ri st =
                 (if brk then (Returned Result_001, st2)
                  else parse_loop data (offset + 2) b' i' r' st2)"
      using True by (subst parse_loop.simps) (simp add: adv)
    show ?thesis
    proof (cases brk)
      case True
      with run less.prems show ?thesis by simp
    next
      case False
      have "length data - (offset + 2) < length data - offset" using True by simp
      from less.hyps [OF this] run less.prems False show ?thesis by simp
    qed
  qed
qed


lemma Execute_binary_result:
  "parse_binary_commands data st = (Returned r, st') \<Longrightarrow> responses r = []"
  using parse_loop_result [of data 3 0 0 0 st r st']
  by (simp add: parse_binary_commands_def Result_001_def)

text \<open>Commands that do return, so that the statement above is about something.\<close>

lemma Execute_returns:
  "take 7 raw_command \<noteq> ''BINARY:'' \<Longrightarrow> split_tokens raw_command = cmd # rest \<Longrightarrow>
   cmd \<noteq> ''done'' \<Longrightarrow> \<exists>r st'. Execute inflate rd raw_command st = Some (Returned r, st')"
  by (simp add: Execute_def parse_text_commands_def tokenize_split_tokens)

lemma poll_done:
  "rd 0 = Some 0 \<Longrightarrow> poll_send_status rd 0 st = Some (wr_readMemory 0x43c00014 st)"
  by (subst poll_send_status.simps) simp

section \<open>Properties of parse_binary_commands\<close>

subsection \<open>A stream for all eight buses\<close>

text \<open>
  Claim C1, as the code has it. The parser begins at offset 3: the first three bytes of
  the buffer are not read. For every buffer of three leading bytes followed by exactly
  \<open>4 * 32 * 8 = 1024\<close> two-byte values, and from every state of the queues, the call
  returns its result \<open>001\<close>. Apart from the data words written to the FIFO data
  registers, the calls it makes are: for each bus from 0 to 7 in turn the close sequence
  of the bus (write \<open>0x280\<close> to \<open>+0x14\<close>, read \<open>+0x00\<close>, write \<open>0xffffffff\<close> to
  \<open>+0x00\<close>, read \<open>+0x0C\<close>) and, up to bus 6, the open sequence of the next bus (write
  \<open>0x2\<close> to \<open>+0x2C\<close>). No call has an address in or beyond the block of a ninth
  bus.
\<close>

theorem parse_binary_commands_full_stream:
  assumes "length binary_data = 3 + 2 * (4 * 32 * 8)"
  shows "\<exists>st' ops. parse_binary_commands binary_data st = (Returned Result_001, st')
           \<and> hw st' = hw st @ ops
           \<and> control_ops ops = concat (map bus_turn [0..<8])
           \<and> (\<forall>x \<in> set ops. op_address x < bus_base 8)
           \<and> map fst (closes st') = map fst (closes st) @ map int [0..<8]"
proof -
  have "length binary_data = 3 + 2 * (1023 + 1)" using assms by simp
  from full_run [OF cursor_ok_start _ this, of st] show ?thesis
    by (simp add: parse_binary_commands_def cursor_pos_start)
qed

theorem parse_binary_commands_full_stream_witness:
  "length (replicate 2051 (0 :: byte)) = 3 + 2 * (4 * 32 * 8)
   \<and> fst (parse_binary_commands (replicate 2051 0) engine_init) = Returned Result_001
   \<and> control_ops (hw (snd (parse_binary_commands (replicate 2051 0) engine_init))) =
       concat (map bus_turn [0..<8])
   \<and> map fst (closes (snd (parse_binary_commands (replicate 2051 0) engine_init))) =
       map int [0..<8]"
  using parse_binary_commands_full_stream [of "replicate 2051 0" engine_init]
  by (auto simp: engine_init_def)

text \<open>
  Claim C1 as it is written fails: a buffer that is nothing but 1024 two-byte values
  has 2048 bytes. The parser takes its first three bytes for the part to skip, finds
  1022 values and then a single byte, and reads the byte after the end of the buffer.
  Bus 7 has had 126 values by then and is never closed: close sequences were issued
  for the buses 0 to 6 only.
\<close>

theorem parse_binary_commands_bare_stream_counterexample:
  "fst (parse_binary_commands (replicate 2048 0) engine_init) = Undefined
   \<and> map fst (closes (snd (parse_binary_commands (replicate 2048 0) engine_init))) =
       [0, 1, 2, 3, 4, 5, 6]"
proof -
  have "length (replicate 2048 (0 :: byte)) = 3 + 2 * 1022 + 1" by simp
  from short_run [OF cursor_ok_start _ this, of engine_init]
  show ?thesis
    by (simp add: parse_binary_commands_def cursor_pos_start engine_init_def upt_conv_Cons)
qed

subsection \<open>One value, one device command\<close>



subsection \<open>Leftover bytes\<close>

text \<open>
  Claim C5, as the code has it. After the drain loop for a value the queue of the
  current bus holds fewer than four bytes; if every queue holds fewer than four bytes
  when a run begins, every queue does so after each value and when the run ends. The
  queues are global and are never cleared, and a bus takes \<open>128 * 5 = 640\<close> bytes, a
  multiple of four, between the begin of a run and its close sequence. So the queue of
  a bus is empty when its close sequence begins provided the queues were empty when the
  run began, as they are before the first command.
\<close>

theorem queue_leftover_invariant:
  "length (byte_queues (consume_value binary_data offset bus_id ucIcAddr reg_idx st)
            (int (unat bus_id))) < 4
   \<and> ((\<forall>k. length (byte_queues st k) < 4) \<longrightarrow>
        (\<forall>k. length (byte_queues
                (consume_value binary_data offset bus_id ucIcAddr reg_idx st) k) < 4)
        \<and> (\<forall>k. length (byte_queues (snd (parse_binary_commands binary_data st)) k) < 4))
   \<and> ((\<forall>k. byte_queues st k = []) \<and> closes st = [] \<longrightarrow>
        (\<forall>c \<in> set (closes (snd (parse_binary_commands binary_data st))). snd c = []))"
proof (intro conjI impI)
  show "length (byte_queues (consume_value binary_data offset bus_id ucIcAddr reg_idx st)
            (int (unat bus_id))) < 4"
    by (simp add: consume_value_spec length_leftover)
  assume small: "\<forall>k. length (byte_queues st k) < 4"
  then show "\<forall>k. length (byte_queues
                (consume_value binary_data offset bus_id ucIcAddr reg_idx st) k) < 4"
    by (simp add: consume_value_spec length_leftover)
  from queues_small [OF cursor_ok_start small]
  show "\<forall>k. length (byte_queues (snd (parse_binary_commands binary_data st)) k) < 4"
    by (simp add: parse_binary_commands_def)
next
  assume "(\<forall>k. byte_queues st k = []) \<and> closes st = []"
  then show "\<forall>c \<in> set (closes (snd (parse_binary_commands binary_data st))). snd c = []"
    using closes_empty [OF cursor_ok_start, of st binary_data 3]
    by (simp add: parse_binary_commands_def)
qed

theorem queue_leftover_invariant_witness:
  "(\<forall>k. length (byte_queues engine_init k) < 4)
   \<and> (\<forall>k. byte_queues engine_init k = []) \<and> closes engine_init = []
   \<and> length (byte_queues (consume_value (replicate 2051 0) 3 0 0 0 engine_init)
               (int (unat (0 :: byte)))) < 4
   \<and> (\<forall>k. length (byte_queues (snd (parse_binary_commands (replicate 2051 0) engine_init)) k) < 4)
   \<and> closes (snd (parse_binary_commands (replicate 2051 0) engine_init)) =
       [(0, []), (1, []), (2, []), (3, []), (4, []), (5, []), (6, []), (7, [])]"
proof -
  have init: "(\<forall>k. length (byte_queues engine_init k) < 4)"
    "(\<forall>k. byte_queues engine_init k = []) \<and> closes engine_init = []"
    by (simp_all add: engine_init_def)
  have "length (replicate 2051 (0 :: byte)) = 3 + 2 * (1023 + 1)" by simp
  from full_run [OF cursor_ok_start _ this, of engine_init]
  have buses: "map fst (closes (snd (parse_binary_commands (replicate 2051 0) engine_init))) =
               map int [0..<8]"
    by (auto simp: parse_binary_commands_def cursor_pos_start engine_init_def)
  have "\<forall>c \<in> set (closes (snd (parse_binary_commands (replicate 2051 0) engine_init))).
          snd c = []"
    using queue_leftover_invariant [of "replicate 2051 0" 3 0 0 0 engine_init] init by simp
  from closes_all_empty [OF buses this]
  have "closes (snd (parse_binary_commands (replicate 2051 0) engine_init)) =
        [(0, []), (1, []), (2, []), (3, []), (4, []), (5, []), (6, []), (7, [])]"
    by (simp add: upt_conv_Cons)
  then show ?thesis
    using queue_leftover_invariant [of "replicate 2051 0" 3 0 0 0 engine_init] init by simp
qed

text \<open>
  Claim C5 as it is written fails on the second of two runs. A first command with a
  single value leaves one byte in the queue of bus 0. A second command with the 128
  values of bus 0 then reaches the close sequence of bus 0 with one byte in its queue.
\<close>

theorem queue_not_empty_at_close_counterexample:
  "closes (snd (parse_binary_commands (replicate 259 0)
            (snd (parse_binary_commands [0, 0, 0, 0xAB, 0xCD] engine_init)))) \<noteq> []
   \<and> fst (hd (closes (snd (parse_binary_commands (replicate 259 0)
            (snd (parse_binary_commands [0, 0, 0, 0xAB, 0xCD] engine_init)))))) = 0
   \<and> length (snd (hd (closes (snd (parse_binary_commands (replicate 259 0)
            (snd (parse_binary_commands [0, 0, 0, 0xAB, 0xCD] engine_init))))))) = 1"
proof -
  let ?st1 = "\<lparr> byte_queues = (\<lambda>k. [])(0 := [0xCD]),
                hw = [HwWrite 0x43C40010 0x280027AB], closes = [] \<rparr>"
  have "\<exists>q cs. closes (snd (parse_loop (replicate 259 0) 3 0 0 0 ?st1)) =
                  closes ?st1 @ (int (unat (0 :: byte)), q) # cs \<and> length q = 1 mod 4"
    by (rule close_length [where n = 127])
       (simp_all add: cursor_ok_def cursor_pos_def)
  then obtain q cs where
    c: "closes (snd (parse_loop (replicate 259 0) 3 0 0 0 ?st1)) = (0, q) # cs"
    and q: "length q = 1"
    by auto
  have s1: "snd (parse_binary_commands [0, 0, 0, 0xAB, 0xCD] engine_init) = ?st1"
    by (simp add: first_run)
  have run2: "parse_binary_commands (replicate 259 0) ?st1 =
              parse_loop (replicate 259 0) 3 0 0 0 ?st1"
    by (simp add: parse_binary_commands_def)
  show ?thesis unfolding s1 run2 c using q by simp
qed

section \<open>Properties of Execute\<close>

subsection \<open>Unrecognized text commands\<close>

text \<open>
  Claim C9. The tokens that \<open>Execute\<close> finds are the tokens of the line split at
  spaces and \<open>&\<close>. For every command that does not begin with \<open>BINARY:\<close> and whose
  first token is neither \<open>start\<close> nor \<open>done\<close>, \<open>Execute\<close> returns the result with
  the message \<open>what?\<close> and leaves the state as it was: no call of \<open>wr.writeMemory\<close>
  or \<open>wr.readMemory\<close> is made.
\<close>

theorem Execute_unrecognized:
  assumes "take 7 raw_command \<noteq> ''BINARY:''"
    and "split_tokens raw_command = cmd # rest"
    and "cmd \<noteq> ''start''" and "cmd \<noteq> ''done''"
  shows "Execute inflate rd raw_command st =
           Some (Returned \<lparr> message = ''what?'', responses = [] \<rparr>, st)
         \<and> tokenize raw_command = split_tokens raw_command"
  using assms
  by (simp add: Execute_def parse_text_commands_def tokenize_split_tokens)

theorem Execute_unrecognized_witness:
  "take 7 ''reset & now'' \<noteq> ''BINARY:''
   \<and> split_tokens ''reset & now'' = [''reset'', ''now'']
   \<and> Execute (\<lambda>compressed. Inl []) (\<lambda>i. None) ''reset & now'' engine_init =
       Some (Returned \<lparr> message = ''what?'', responses = [] \<rparr>, engine_init)
   \<and> tokenize ''reset & now'' = split_tokens ''reset & now''"
proof -
  have s: "split_tokens ''reset & now'' = [''reset'', ''now'']"
    by (simp add: split_tokens_def is_delim_def)
  show ?thesis
    using Execute_unrecognized [of "''reset & now''" "''reset''" "[''now'']"
        "\<lambda>compressed. Inl []" "\<lambda>i. None" engine_init]
    by (simp add: s)
qed

subsection \<open>No readback words\<close>

text \<open>
  Claim C10. Whatever the command, binary or text, whatever zlib and the hardware
  answer and whatever the state: when \<open>Execute\<close> returns a \<open>Result\<close>, its
  \<open>responses\<close> are empty. The reply built from it therefore has no readback line: it
  is the message line alone, or nothing when the message is empty.
\<close>

theorem Execute_responses_empty:
  assumes "Execute inflate rd raw_command st = Some (Returned r, st')"
  shows "responses r = []
         \<and> reply_lines readback_line r = (if message r = [] then [] else message r @ CRLF)"
proof -
  have "responses r = []"
    using assms
    by (auto simp: Execute_def parse_text_commands_def Let_def
        split: if_splits option.splits list.splits sum.splits prod.splits
        dest: Execute_binary_result)
  then show ?thesis by (simp add: reply_lines_def)
qed

theorem Execute_responses_empty_witness:
  "Execute (\<lambda>compressed. Inl []) (\<lambda>i. None) ''start'' engine_init =
     Some (Returned \<lparr> message = ''stat init completed !!!'', responses = [] \<rparr>,
           wr_writeMemory 0x43c4002c 0x2 engine_init)
   \<and> responses \<lparr> message = ''stat init completed !!!'', responses = [] \<rparr> = []
   \<and> reply_lines (\<lambda>v. ''0000[0]'' @ CRLF)
         \<lparr> message = ''stat init completed !!!'', responses = [] \<rparr> =
       ''stat init completed !!!'' @ CRLF"
proof -
  have s: "split_tokens ''start'' = [''start'']"
    by (simp add: split_tokens_def is_delim_def)
  have e: "Execute (\<lambda>compressed. Inl []) (\<lambda>i. None) ''start'' engine_init =
     Some (Returned \<lparr> message = ''stat init completed !!!'', responses = [] \<rparr>,
           wr_writeMemory 0x43c4002c 0x2 engine_init)"
    by (simp add: Execute_def parse_text_commands_def tokenize_split_tokens s)
  show ?thesis
    using Execute_responses_empty [OF e, of "\<lambda>v. ''0000[0]'' @ CRLF"] e by simp
qed

section \<open>Properties of the phase calculator\<close>

subsection \<open>Evaluating a rounding\<close>

text \<open>
  The rounding of \<open>x\<close> in the binade \<open>k\<close> is \<open>m\<close> units in the last place when
  \<open>x\<close> is less than half a unit from it.
\<close>

lemma round_even_eval:
  assumes "of_int m - 1 / 2 < q" and "q < of_int m + 1 / 2"
  shows "round_even q = m"
proof (cases "of_int m \<le> q")
  case True
  then have "\<lfloor>q\<rfloor> = m" using assms(2) by (intro floor_unique) linarith+
  then show ?thesis using assms True by (simp add: round_even_def Let_def)
next
  case False
  then have "\<lfloor>q\<rfloor> = m - 1" using assms(1) by (intro floor_unique) (simp, linarith)+
  then show ?thesis using assms False by (simp add: round_even_def Let_def)
qed

lemma round_even_near: "\<bar>of_int (round_even q) - q\<bar> \<le> 1 / 2"
  unfolding round_even_def Let_def by (auto; linarith)

lemma round_to_binade:
  assumes "2 powi k \<le> \<bar>x\<bar>" and "\<bar>x\<bar> < 2 powi (k + 1)" and "emin \<le> k"
    and "y = of_int (round_even (x / 2 powi (k - (int p - 1)))) * 2 powi (k - (int p - 1))"
    and "\<bar>y\<bar> < 2 powi (emax + 1)"
  shows "round_to p emin emax x = Fin y"
proof -
  have "(0::real) < 2 powi k" by (rule zero_less_power_int) simp
  then have pos: "0 < \<bar>x\<bar>" using assms(1) by linarith
  then have x0: "x \<noteq> 0" by simp
  have p1: "(2::real) powr real_of_int k = 2 powi k" by (simp add: powr_real_of_int')
  have p2: "(2::real) powr (real_of_int k + 1) = 2 powi (k + 1)"
    using powr_real_of_int' [of 2 "k + 1"] by simp
  have "\<lfloor>log 2 \<bar>x\<bar>\<rfloor> = k"
    using floor_log_eq_powr_iff [of "\<bar>x\<bar>" 2 k] pos assms(1,2) by (simp add: p1 p2)
  then have e: "max \<lfloor>log 2 \<bar>x\<bar>\<rfloor> emin - (int p - 1) = k - (int p - 1)"
    using assms(3) by simp
  show ?thesis
    unfolding round_to_def Let_def e using x0 assms(4,5) by simp
qed

lemma round_to_eval:
  assumes "2 powi k \<le> \<bar>x\<bar>" and "\<bar>x\<bar> < 2 powi (k + 1)" and "emin \<le> k"
    and "of_int m - 1 / 2 < x / 2 powi (k - (int p - 1))"
    and "x / 2 powi (k - (int p - 1)) < of_int m + 1 / 2"
    and "y = of_int m * 2 powi (k - (int p - 1))"
    and "\<bar>y\<bar> < 2 powi (emax + 1)"
  shows "round_to p emin emax x = Fin y"
proof -
  have r: "round_even (x / 2 powi (k - (int p - 1))) = m"
    using assms(4,5) by (rule round_even_eval)
  have y: "y = of_int (round_even (x / 2 powi (k - (int p - 1)))) * 2 powi (k - (int p - 1))"
    unfolding r by (rule assms(6))
  show ?thesis
    using assms(1,2,3) y assms(7) by (rule round_to_binade)
qed

lemma to_float_eval:
  assumes "2 powi k \<le> \<bar>x\<bar>" and "\<bar>x\<bar> < 2 powi (k + 1)" and "- 126 \<le> k"
    and "of_int m - 1 / 2 < x / 2 powi (k - 23)"
    and "x / 2 powi (k - 23) < of_int m + 1 / 2"
    and "y = of_int m * 2 powi (k - 23)"
    and "\<bar>y\<bar> < 2 powi 128"
  shows "to_float x = Fin y"
  unfolding to_float_def
  using round_to_eval [of k x "- 126" m 24 y 127] assms by simp

lemma to_double_eval:
  assumes "2 powi k \<le> \<bar>x\<bar>" and "\<bar>x\<bar> < 2 powi (k + 1)" and "- 1022 \<le> k"
    and "of_int m - 1 / 2 < x / 2 powi (k - 52)"
    and "x / 2 powi (k - 52) < of_int m + 1 / 2"
    and "y = of_int m * 2 powi (k - 52)"
    and "\<bar>y\<bar> < 2 powi 1024"
  shows "to_double x = Fin y"
  unfolding to_double_def
  using round_to_eval [of k x "- 1022" m 53 y 1023] assms by simp


subsection \<open>The steps of one call\<close>

text \<open>
  The call \<open>phase(0x1p-20f, 0.0f)\<close> with the globals as they are initialised:
  \<open>az_value = 0\<close>, \<open>el_value = 0\<close>, \<open>freq_Hz = 1000000000\<close>. Each lemma is one
  operation of the source with its rounding.
\<close>

lemma to_float_zero: "to_float 0 = Fin 0"
  by (simp add: to_float_def round_to_def)

lemma pi_val: "INTELLIAN_PI = Fin (13176795 / 4194304)"
  unfolding INTELLIAN_PI_def
  by (rule to_float_eval [where k = 1 and m = 13176795]) simp_all

lemma sol_val: "SPEED_OF_LIGHT = Fin 300000000"
  unfolding SPEED_OF_LIGHT_def
  by (rule to_float_eval [where k = 28 and m = 9375000]) simp_all

lemma freq_val: "ull_to_float 1000000000 = Fin 1000000000"
proof -
  have "to_float 1000000000 = Fin 1000000000"
    by (rule to_float_eval [where k = 29 and m = 15625000]) simp_all
  then show ?thesis by (simp add: ull_to_float_def)
qed

lemma rad0: "to_radian (Fin 0) = Fin 0"
  by (simp add: to_radian_def fmul_def pi_val to_float_zero)

lemma one_val: "to_float 1 = Fin 1"
  by (rule to_float_eval [where k = 0 and m = 8388608]) simp_all

lemma cos0: "cos_f (Fin 0) = Fin 1" and sin0: "sin_f (Fin 0) = Fin 0"
  by (simp_all add: one_val to_float_zero)

lemma lambda_val: "fdiv (Fin 300000000) (Fin 1000000000) = Fin (5033165 / 16777216)"
proof -
  have "to_float (300000000 / 1000000000) = Fin (5033165 / 16777216)"
    by (rule to_float_eval [where k = "- 2" and m = 10066330]) simp_all
  then show ?thesis by simp
qed

lemma k0a: "fmul (Fin (- 2)) (Fin (13176795 / 4194304)) = Fin (- (13176795 / 2097152))"
proof -
  have "to_float (- 2 * (13176795 / 4194304)) = Fin (- (13176795 / 2097152))"
    by (rule to_float_eval [where k = 2 and m = "- 13176795"]) simp_all
  then show ?thesis by (simp add: fmul_def)
qed

lemma k0b: "fdiv (Fin (- (13176795 / 2097152))) (Fin (5033165 / 16777216)) =
            Fin (- (5490331 / 262144))"
proof -
  have "to_float (- (13176795 / 2097152) / (5033165 / 16777216)) = Fin (- (5490331 / 262144))"
    by (rule to_float_eval [where k = 4 and m = "- 10980662"]) simp_all
  then show ?thesis by simp
qed

lemma k0c: "fdiv (Fin (- (5490331 / 262144))) (Fin 1000) = Fin (- (5622099 / 268435456))"
proof -
  have "to_float (- (5490331 / 262144) / 1000) = Fin (- (5622099 / 268435456))"
    by (rule to_float_eval [where k = "- 6" and m = "- 11244198"]) simp_all
  then show ?thesis by simp
qed

lemma xi_val: "to_float (1 / 1048576) = Fin (1 / 1048576)"
  by (rule to_float_eval [where k = "- 20" and m = 8388608]) simp_all

lemma inner: "fadd (fmul (fmul (Fin (1 / 1048576)) (Fin 1)) (Fin 1))
                   (fmul (fmul (Fin 0) (Fin 1)) (Fin 0)) = Fin (1 / 1048576)"
  by (simp add: fmul_def fadd_def xi_val to_float_zero)

lemma prod: "fmul (Fin (- (5622099 / 268435456))) (Fin (1 / 1048576)) =
             Fin (- (5622099 / 281474976710656))"
proof -
  have "to_float (- (5622099 / 268435456) * (1 / 1048576)) = Fin (- (5622099 / 281474976710656))"
    by (rule to_float_eval [where k = "- 26" and m = "- 11244198"]) simp_all
  then show ?thesis by (simp add: fmul_def)
qed

lemma deg1: "fmul (Fin (- (5622099 / 281474976710656))) (Fin 180) =
             Fin (- (15812153 / 4398046511104))"
proof -
  have "to_float (- (5622099 / 281474976710656) * 180) = Fin (- (15812153 / 4398046511104))"
    by (rule to_float_eval [where k = "- 19" and m = "- 15812153"]) simp_all
  then show ?thesis by (simp add: fmul_def)
qed

lemma deg2: "fdiv (Fin (- (15812153 / 4398046511104))) (Fin (13176795 / 4194304)) =
             Fin (- (10066329 / 8796093022208))"
proof -
  have "to_float (- (15812153 / 4398046511104) / (13176795 / 4194304)) =
          Fin (- (10066329 / 8796093022208))"
    by (rule to_float_eval [where k = "- 20" and m = "- 10066329"]) simp_all
  then show ?thesis by simp
qed

lemma p_val: "to_float (- (10066329 / 8796093022208)) = Fin (- (10066329 / 8796093022208))"
  by (rule to_float_eval [where k = "- 20" and m = "- 10066329"]) simp_all

lemma sum_val: "dadd (Fin (- (10066329 / 8796093022208))) (Fin 360) =
                Fin (3166593477928551 / 8796093022208)"
  unfolding dadd_def fp_arith.simps
  by (rule to_double_eval [where k = 8 and m = 6333186955857102]) simp_all

lemma final_val: "to_float (3166593477928551 / 8796093022208) = Fin 360"
  by (rule to_float_eval [where k = 8 and m = 11796480]) simp_all

lemma normalize_val: "normalize_degrees (Fin (- (10066329 / 8796093022208))) = Fin 360"
proof -
  have g: "\<not> (fp_ge (Fin (- (10066329 / 8796093022208))) (Fin 0) \<and>
               fp_lt (Fin (- (10066329 / 8796093022208))) (Fin 360))" by simp
  have t: "trunc (- (10066329 / 8796093022208) / 360) = 0"
    unfolding trunc_def by (simp add: ceiling_eq_iff)
  have m: "fp_fmod (Fin (- (10066329 / 8796093022208))) (Fin 360) =
             Fin (- (10066329 / 8796093022208))"
    unfolding fp_fmod.simps t by simp
  have c: "cast_float (Fin (- (10066329 / 8796093022208))) = Fin (- (10066329 / 8796093022208))"
    by (simp add: p_val)
  have l: "fp_lt (Fin (- (10066329 / 8796093022208))) (Fin 0)" by simp
  have f: "cast_float (Fin (3166593477928551 / 8796093022208)) = Fin 360"
    by (simp add: final_val)
  show ?thesis
    unfolding normalize_degrees_def Let_def
    by (simp only: g if_False m c l if_True sum_val f)
qed

lemma phase_val: "phase (Fin 0) (Fin 0) 1000000000 (Fin (1 / 1048576)) (Fin 0) = Fin 360"
proof -
  have n: "fp_neg (Fin 0) = Fin 0" by simp
  have g: "\<not> (isnan (Fin 0) \<or> isnan (Fin 0) \<or> (1000000000 :: 64 word) = 0)" by simp
  show ?thesis
    unfolding phase_def Let_def
    by (simp only: g if_False n rad0 cos0 sin0 sol_val freq_val lambda_val pi_val k0a k0b k0c
        inner to_degree_def prod deg1 deg2 normalize_val)
qed


text \<open>
  The same call at the carrier frequency of the example of the interface description,
  \<open>freq_Hz = 29500000000\<close>, with \<open>az_value = 0\<close>, \<open>el_value = 0\<close> and the element
  position \<open>(1e-7f, 0.0f)\<close>; the literal \<open>1e-7f\<close> is the \<open>float\<close>
  \<open>14073749 * 2 ^ -47\<close>.
\<close>

lemma xi_lit: "to_float (1 / 10000000) = Fin (14073749 / 140737488355328)"
  by (rule to_float_eval [where k = "- 24" and m = 14073749]) simp_all

lemma freq_val_ka: "ull_to_float 29500000000 = Fin 29500000256"
proof -
  have "to_float 29500000000 = Fin 29500000256"
    by (rule to_float_eval [where k = 34 and m = 14404297]) simp_all
  then show ?thesis by (simp add: ull_to_float_def)
qed

lemma lambda_val_ka: "fdiv (Fin 300000000) (Fin 29500000256) = Fin (682463 / 67108864)"
proof -
  have "to_float (300000000 / 29500000256) = Fin (682463 / 67108864)"
    by (rule to_float_eval [where k = "- 7" and m = 10919408]) simp_all
  then show ?thesis by simp
qed

lemma k0b_ka: "fdiv (Fin (- (13176795 / 2097152))) (Fin (682463 / 67108864)) =
    Fin (- (10122799 / 16384))"
proof -
  have "to_float ((- (13176795 / 2097152)) / (682463 / 67108864)) = Fin (- (10122799 / 16384))"
    by (rule to_float_eval [where k = 9 and m = "- 10122799"]) simp_all
  then show ?thesis by simp
qed

lemma k0c_ka: "fdiv (Fin (- (10122799 / 16384))) (Fin 1000) = Fin (- (5182873 / 8388608))"
proof -
  have "to_float ((- (10122799 / 16384)) / 1000) = Fin (- (5182873 / 8388608))"
    by (rule to_float_eval [where k = "- 1" and m = "- 10365746"]) simp_all
  then show ?thesis by simp
qed

lemma xi_val_ka: "to_float (14073749 / 140737488355328) = Fin (14073749 / 140737488355328)"
  by (rule to_float_eval [where k = "- 24" and m = 14073749]) simp_all

lemma inner_ka: "fadd (fmul (fmul (Fin (14073749 / 140737488355328)) (Fin 1)) (Fin 1))
                   (fmul (fmul (Fin 0) (Fin 1)) (Fin 0)) = Fin (14073749 / 140737488355328)"
  by (simp add: fmul_def fadd_def xi_val_ka to_float_zero)

lemma prod_ka: "fmul (Fin (- (5182873 / 8388608))) (Fin (14073749 / 140737488355328)) =
    Fin (- (4347709 / 70368744177664))"
proof -
  have "to_float ((- (5182873 / 8388608)) * (14073749 / 140737488355328)) =
      Fin (- (4347709 / 70368744177664))"
    by (rule to_float_eval [where k = "- 24" and m = "- 8695418"]) simp_all
  then show ?thesis by (simp add: fmul_def)
qed

lemma deg1_ka: "fmul (Fin (- (4347709 / 70368744177664))) (Fin 180) =
    Fin (- (3056983 / 274877906944))"
proof -
  have "to_float ((- (4347709 / 70368744177664)) * 180) = Fin (- (3056983 / 274877906944))"
    by (rule to_float_eval [where k = "- 17" and m = "- 12227932"]) simp_all
  then show ?thesis by (simp add: fmul_def)
qed

lemma deg2_ka: "fdiv (Fin (- (3056983 / 274877906944))) (Fin (13176795 / 4194304)) =
    Fin (- (7784543 / 2199023255552))"
proof -
  have "to_float ((- (3056983 / 274877906944)) / (13176795 / 4194304)) =
      Fin (- (7784543 / 2199023255552))"
    by (rule to_float_eval [where k = "- 19" and m = "- 15569086"]) simp_all
  then show ?thesis by simp
qed

lemma p_val_ka: "to_float (- (7784543 / 2199023255552)) = Fin (- (7784543 / 2199023255552))"
  by (rule to_float_eval [where k = "- 19" and m = "- 15569086"]) simp_all

lemma sum_val_ka: "dadd (Fin (- (7784543 / 2199023255552))) (Fin 360) =
    Fin (791648364214177 / 2199023255552)"
  unfolding dadd_def fp_arith.simps
  by (rule to_double_eval [where k = 8 and m = 6333186913713416]) simp_all

lemma final_val_ka: "to_float (791648364214177 / 2199023255552) = Fin 360"
  by (rule to_float_eval [where k = 8 and m = 11796480]) simp_all

lemma normalize_val_ka: "normalize_degrees (Fin (- (7784543 / 2199023255552))) = Fin 360"
proof -
  have g: "\<not> (fp_ge (Fin (- (7784543 / 2199023255552))) (Fin 0) \<and> fp_lt (Fin (- (7784543 / 2199023255552))) (Fin 360))" by simp
  have t: "trunc (- (7784543 / 2199023255552) / 360) = 0"
    unfolding trunc_def by (simp add: ceiling_eq_iff)
  have m: "fp_fmod (Fin (- (7784543 / 2199023255552))) (Fin 360) =
      Fin (- (7784543 / 2199023255552))"
    unfolding fp_fmod.simps t by simp
  have c: "cast_float (Fin (- (7784543 / 2199023255552))) = Fin (- (7784543 / 2199023255552))"
    by (simp add: p_val_ka)
  have l: "fp_lt (Fin (- (7784543 / 2199023255552))) (Fin 0)" by simp
  have f: "cast_float (Fin (791648364214177 / 2199023255552)) = Fin 360"
    by (simp add: final_val_ka)
  show ?thesis
    unfolding normalize_degrees_def Let_def
    by (simp only: g if_False m c l if_True sum_val_ka f)
qed

lemma phase_val_ka: "phase (Fin 0) (Fin 0) 29500000000 (Fin (14073749 / 140737488355328)) (Fin 0) =
    Fin 360"
proof -
  have n: "fp_neg (Fin 0) = Fin 0" by simp
  have g: "\<not> (isnan (Fin 0) \<or> isnan (Fin 0) \<or> (29500000000 :: 64 word) =
      0)" by simp
  show ?thesis
    unfolding phase_def Let_def
    by (simp only: g if_False n rad0 cos0 sin0 sol_val freq_val_ka lambda_val_ka pi_val k0a
        k0b_ka k0c_ka inner_ka to_degree_def prod_ka deg1_ka deg2_ka normalize_val_ka)
qed

subsection \<open>Small negative remainders\<close>

text \<open>
  \<open>normalize_degrees\<close> maps every negative \<open>float\<close> from \<open>- 2 ^ -17\<close> on to 360:
  the remainder of \<open>std::fmod\<close> is the number itself, and the sum with \<open>360.0\<close> is
  less than half a unit in the last place of \<open>float\<close> below 360.
\<close>

lemma normalize_degrees_small_negative:
  assumes "- (1 / 131072) \<le> x" and "x < 0" and "to_float x = Fin x"
  shows "normalize_degrees (Fin x) = Fin 360"
proof -
  define r where "r = round_even ((x + 360) / 2 powi (8 - (int 53 - 1)))"
  define y :: real where "y = of_int r * 2 powi (8 - (int 53 - 1))"
  have u: "(2::real) powi (8 - (int 53 - 1)) = 1 / 17592186044416" by simp
  have y: "y = of_int r / 17592186044416" unfolding y_def u by simp
  have "\<bar>of_int r - (x + 360) / (1 / 17592186044416)\<bar> \<le> 1 / 2"
    using round_even_near [of "(x + 360) / 2 powi (8 - (int 53 - 1))"] unfolding r_def u .
  moreover have "(x + 360) / (1 / 17592186044416) = (x + 360) * 17592186044416" by simp
  ultimately have "\<bar>of_int r - (x + 360) * 17592186044416\<bar> \<le> 1 / 2" by (simp only:)
  then have near: "(x + 360) * 17592186044416 - 1 / 2 \<le> of_int r"
      "of_int r \<le> (x + 360) * 17592186044416 + 1 / 2"
    by linarith+
  have ylo: "360 - 1 / 65536 < y"
    unfolding y using near(1) assms(1) by (simp add: field_simps)
  have "r \<le> 6333186975989760"
  proof (rule ccontr)
    assume "\<not> r \<le> 6333186975989760"
    then have "6333186975989761 \<le> r" by simp
    then have "(6333186975989761 :: real) \<le> of_int r" by linarith
    moreover have "(x + 360) * 17592186044416 < 6333186975989760" using assms(2) by simp
    ultimately show False using near(2) by linarith
  qed
  then have "(of_int r :: real) \<le> 6333186975989760" by linarith
  then have yhi: "y \<le> 360" unfolding y by simp
  have d: "to_double (x + 360) = Fin y"
    unfolding to_double_def
  proof (rule round_to_binade [where k = 8])
    show "y = of_int (round_even ((x + 360) / 2 powi (8 - (int 53 - 1)))) *
              2 powi (8 - (int 53 - 1))"
      unfolding y_def r_def ..
  qed (use assms ylo yhi in simp_all)
  have f: "to_float y = Fin 360"
  proof (cases "y = 360")
    case True
    have "to_float 360 = Fin 360"
      by (rule to_float_eval [where k = 8 and m = 11796480]) simp_all
    then show ?thesis by (simp only: True)
  next
    case False
    then have "y < 360" using yhi by linarith
    then show ?thesis
      using ylo by (intro to_float_eval [where k = 8 and m = 11796480]) simp_all
  qed
  have g: "\<not> (fp_ge (Fin x) (Fin 0) \<and> fp_lt (Fin x) (Fin 360))" using assms(2) by simp
  have "- 1 < x / 360" "x / 360 < 0" using assms(1,2) by simp_all
  then have "\<lceil>x / 360\<rceil> = 0" by (simp add: ceiling_eq_iff)
  then have t: "trunc (x / 360) = 0" using assms(2) by (simp add: trunc_def)
  have m: "fp_fmod (Fin x) (Fin 360) = Fin x" unfolding fp_fmod.simps t by simp
  have c: "cast_float (Fin x) = Fin x" by (simp add: assms(3))
  have l: "fp_lt (Fin x) (Fin 0)" using assms(2) by simp
  have s: "dadd (Fin x) (Fin 360) = Fin y" unfolding dadd_def fp_arith.simps by (rule d)
  have f': "cast_float (Fin y) = Fin 360" using f by simp
  show ?thesis
    unfolding normalize_degrees_def Let_def
    by (simp only: g if_False m c l if_True s f')
qed

subsection \<open>The range of phase\<close>

text \<open>
  Claim C8 says that \<open>phase\<close> returns a value in \<open>[0, 360)\<close> whenever azimuth and
  elevation are no NaN and the frequency is not zero. The code does not keep it.
  \<^item> With the globals as they are initialised (azimuth 0, elevation 0, 1 GHz) and an
    element at \<open>x = 2 ^ -20\<close>, \<open>y = 0\<close>, the steering phase \<open>p\<close> is the small
    negative number \<open>-10066329 * 2 ^ -43\<close> (about \<open>-1.14e-6\<close> degrees).
    \<open>normalize_degrees\<close> takes the branch for a negative remainder and adds \<open>360.0\<close>;
    the sum, about \<open>359.9999989\<close>, is nearer to \<open>360\<close> than to the \<open>float\<close> below it
    (\<open>360 - 2 ^ -15\<close>), so the conversion to \<open>float\<close> gives 360 and \<open>phase\<close> returns
    exactly 360, outside \<open>[0, 360)\<close>.
  \<^item> At 29.5 GHz, azimuth 0 and elevation 0, with an element at \<open>x = 1e-7f\<close>,
    \<open>y = 0\<close>, \<open>p\<close> is about \<open>-3.54e-6\<close> degrees and \<open>phase\<close> returns 360 in the same
    way.
\<close>

theorem phase_returns_360:
  "phase (Fin 0) (Fin 0) 1000000000 (Fin (1 / 1048576)) (Fin 0) = Fin 360
   \<and> phase (Fin 0) (Fin 0) 29500000000 (Fin (14073749 / 140737488355328)) (Fin 0) = Fin 360"
  using phase_val phase_val_ka by (rule conjI)

text \<open>The other half of the claim holds: the guard answers 0.\<close>

lemma phase_guard:
  "isnan az_value \<or> isnan el_value \<or> freq_Hz = 0 \<Longrightarrow>
   phase az_value el_value freq_Hz xi yi = Fin 0"
  by (simp add: phase_def)


end
